theory Spec2Isabelle
  imports Complex_Main "HOL-Library.AList" "HOL-Library.Log_Nat" "HOL-Library.Code_Target_Numeral"
begin

section \<open>JavaScript values\<close>

text \<open>
  The node's responses, the fields of a transaction description and the value that
  \<open>submit\<close> returns are untyped (\<open>any\<close>) in \<open>src/index.ts\<close>. They are modelled
  as JSON-like trees. Numbers inside them are restricted to integers: of such a number
  the code only observes whether it is falsy, and whether it is identical to a string
  (never).
\<close>

datatype jsval =
    JUndefined
  | JNull
  | JBool bool
  | JNum int
  | JStr string
  | JArr "jsval list"
  | JObj "(string \<times> jsval) list"

text \<open>\<open>!v\<close> is \<open>\<not> truthy v\<close>: undefined, null, false, 0 and the empty string are falsy.\<close>

fun truthy :: "jsval \<Rightarrow> bool" where
  "truthy JUndefined = False"
| "truthy JNull = False"
| "truthy (JBool b) = b"
| "truthy (JNum n) = (n \<noteq> 0)"
| "truthy (JStr s) = (s \<noteq> [])"
| "truthy (JArr xs) = True"
| "truthy (JObj fs) = True"

fun nullish :: "jsval \<Rightarrow> bool" where
  "nullish JUndefined = True"
| "nullish JNull = True"
| "nullish v = False"

text \<open>
  Reading a property of a value that is neither undefined nor null. The code reads only
  the names \<open>result\<close>, \<open>engine_result\<close>, \<open>tx_json\<close>, \<open>hash\<close> and \<open>Account\<close>, which no
  string, number, boolean or array has: there the read gives undefined.
\<close>

fun own_prop :: "jsval \<Rightarrow> string \<Rightarrow> jsval" where
  "own_prop (JObj fs) p = (case map_of fs p of None \<Rightarrow> JUndefined | Some v \<Rightarrow> v)"
| "own_prop v p = JUndefined"

datatype error = Error string | TypeError

text \<open>\<open>v.p\<close> throws a TypeError on undefined and null; \<open>v?.p\<close> gives undefined there.\<close>

definition get_prop :: "jsval \<Rightarrow> string \<Rightarrow> error + jsval" where
  "get_prop v p = (if nullish v then Inl TypeError else Inr (own_prop v p))"

definition opt_prop :: "jsval \<Rightarrow> string \<Rightarrow> jsval" where
  "opt_prop v p = (if nullish v then JUndefined else own_prop v p)"

text \<open>
  \<open>new Error(m)\<close>, where \<open>m\<close> is what \<open>JSON.stringify\<close> returned: a string, or
  undefined (\<open>None\<close>), for which the message is empty.
\<close>

definition new_Error :: "string option \<Rightarrow> error" where
  "new_Error m = Error (case m of None \<Rightarrow> [] | Some s \<Rightarrow> s)"

section \<open>JavaScript numbers\<close>

text \<open>
  The retry counter of \<open>submit\<close> is a \<open>number\<close>: an IEEE 754 binary64 value. A
  finite one is given by its rational value; the two zeros are one value here, since of
  the counter the code only takes \<open>retry - 1\<close> and \<open>retry < 0\<close>, which do not tell
  them apart. \<open>Finite x\<close> is a value of the source when \<open>x\<close> is a double, that is,
  when \<open>binary64 x = Finite x\<close>.
\<close>

datatype number = NaN | PosInfinity | NegInfinity | Finite rat

text \<open>Two to the power \<open>e\<close>, for an integer \<open>e\<close>.\<close>

definition exp2 :: "int \<Rightarrow> rat" where
  "exp2 e = (if 0 \<le> e then 2 ^ nat e else 1 / 2 ^ nat (- e))"

text \<open>The nearest integer to \<open>q\<close>, the even one of the two when \<open>q\<close> is halfway.\<close>

definition round_half_even :: "rat \<Rightarrow> int" where
  "round_half_even q =
     (let f = \<lfloor>q\<rfloor>; d = q - of_int f
      in if d < 1 / 2 then f else if 1 / 2 < d then f + 1 else if even f then f else f + 1)"

text \<open>The exponent \<open>e\<close> with \<open>2^e \<le> a < 2^(e+1)\<close>, for a positive \<open>a\<close>.\<close>

definition binade :: "rat \<Rightarrow> int" where
  "binade a = (if 1 \<le> a then bitlen \<lfloor>a\<rfloor> - 1 else - bitlen (\<lceil>1 / a\<rceil> - 1))"

text \<open>
  Rounding of a rational to binary64, to nearest and ties to even: 53 significant bits,
  so the doubles of the binade \<open>e\<close> are the multiples of \<open>2^(e-52)\<close>; below
  \<open>2^(-1022)\<close> they are the multiples of \<open>2^(-1074)\<close>; what rounds to \<open>2^1024\<close> or
  more is infinite.
\<close>

definition binary64 :: "rat \<Rightarrow> number" where
  "binary64 x =
     (if x = 0 then Finite 0
      else
        (let a = \<bar>x\<bar>;
             e = max (binade a) (- 1022);
             ulp = exp2 (e - 52);
             m = round_half_even (a / ulp)
         in if 1023 < e \<or> (e = 1023 \<and> m = 2 ^ 53)
            then (if x < 0 then NegInfinity else PosInfinity)
            else Finite (if x < 0 then - (of_int m * ulp) else of_int m * ulp)))"

text \<open>
  \<open>x - 1\<close> and \<open>x < 0\<close> on numbers: the exact difference, rounded; NaN and the
  infinities are what they were after \<open>- 1\<close>, and of them only \<open>-Infinity\<close> is below
  zero.
\<close>

fun minus_one :: "number \<Rightarrow> number" where
  "minus_one (Finite x) = binary64 (x - 1)"
| "minus_one n = n"

fun less_zero :: "number \<Rightarrow> bool" where
  "less_zero (Finite x) = (x < 0)"
| "less_zero NegInfinity = True"
| "less_zero n = False"

section \<open>The world: sequence cache, object store, trace of calls\<close>

text \<open>
  A transaction description is a mutable object. Objects live in a store and are passed
  by reference (an index into the store); the values of their own properties are
  immutable trees, since neither \<open>submit\<close> nor \<open>sign\<close> writes below the top level. A
  reference that is not in the store stands for a value that is no object (undefined):
  copying it gives an empty object, reading a property of it throws a TypeError.

  The trace records, in order, the calls that leave \<open>src/index.ts\<close>: \<open>Math.random\<close>,
  the three operations of \<open>swtcSequence\<close>, and the two RPCs. The sequence cache is keyed
  by the value passed as address, which for \<open>submit\<close> is \<open>tx.Account\<close>, whatever it is.
\<close>

type_synonym obj = "(string \<times> jsval) list"

datatype event =
    MathRandom
  | SequenceGet jsval "string option"
  | SequenceRise jsval
  | SequenceReset jsval
  | FetchSequence "string option" jsval
  | SubmitTransaction "string option" string

record world =
  accounts :: "jsval \<Rightarrow> nat option"
  store :: "obj list"
  trace :: "event list"

definition deref :: "world \<Rightarrow> nat \<Rightarrow> obj option" where
  "deref w a = (if a < length (store w) then Some (store w ! a) else None)"

definition field :: "obj \<Rightarrow> string \<Rightarrow> jsval" where
  "field fs p = (case map_of fs p of None \<Rightarrow> JUndefined | Some v \<Rightarrow> v)"

text \<open>\<open>Object.assign({}, tx)\<close>: a new object with the own properties of \<open>tx\<close>, in order.\<close>

definition Object_assign_new :: "nat \<Rightarrow> world \<Rightarrow> nat \<times> world" where
  "Object_assign_new tx w =
     (length (store w),
      w\<lparr>store := store w @ [case deref w tx of None \<Rightarrow> [] | Some fs \<Rightarrow> fs]\<rparr>)"

text \<open>\<open>o.p = v\<close> on the object at reference \<open>a\<close>.\<close>

definition set_field :: "nat \<Rightarrow> string \<Rightarrow> jsval \<Rightarrow> world \<Rightarrow> world" where
  "set_field a p v w = w\<lparr>store := (store w)[a := AList.update p v (store w ! a)]\<rparr>"

definition record_event :: "event \<Rightarrow> world \<Rightarrow> world" where
  "record_event e w = w\<lparr>trace := trace w @ [e]\<rparr>"

section \<open>Collaborators outside \<open>src/index.ts\<close>\<close>

text \<open>
  The environment: what the ledger node answers to each RPC call, as a function of the
  trace of calls made so far, of the node and of the argument; the number
  \<open>Math.random()\<close> returns; and \<open>JSON.stringify\<close> (undefined is \<open>None\<close>).
\<close>

record env =
  fetchSequence_reply :: "event list \<Rightarrow> string option \<Rightarrow> jsval \<Rightarrow> error + nat"
  submitTransaction_reply :: "event list \<Rightarrow> string option \<Rightarrow> string \<Rightarrow> error + jsval"
  Math_random :: "event list \<Rightarrow> rat"
  JSON_stringify :: "jsval \<Rightarrow> string option"

text \<open>
  Modelled from the spec: \<open>./rpc\<close> is missing. \<open>fetchSequence(node, address)\<close> and
  \<open>submitTransaction(node, blob)\<close> are one round trip to the node each: the call is
  recorded and the node's reply, or the transport's failure, comes back.
\<close>

definition fetchSequence :: "env \<Rightarrow> string option \<Rightarrow> jsval \<Rightarrow> world \<Rightarrow> (error + nat) \<times> world" where
  "fetchSequence E node address w =
     (fetchSequence_reply E (trace w) node address, record_event (FetchSequence node address) w)"

definition submitTransaction :: "env \<Rightarrow> string option \<Rightarrow> string \<Rightarrow> world \<Rightarrow> (error + jsval) \<times> world" where
  "submitTransaction E node blob_hex w =
     (submitTransaction_reply E (trace w) node blob_hex, record_event (SubmitTransaction node blob_hex) w)"

text \<open>
  Modelled from the spec: \<open>./sequence\<close> (\<open>swtcSequence\<close>) is missing. The Sequence
  Cache maps an address to the next sequence number, or to nothing. \<open>get\<close> is the
  Sequence Resolver: the cached value if there is one, without calling the fetch
  function; otherwise the fetched value, which it caches; an error of the fetch function
  is passed on unchanged. \<open>rise\<close> advances the cached value by one (the spec does not
  say what it does to an absent entry: it stays absent), \<open>reset\<close> clears it.
\<close>

definition swtcSequence_get ::
  "(string option \<Rightarrow> jsval \<Rightarrow> world \<Rightarrow> (error + nat) \<times> world) \<Rightarrow> jsval \<Rightarrow> string option \<Rightarrow> world
     \<Rightarrow> (error + nat) \<times> world" where
  "swtcSequence_get fetch address node w =
     (let w1 = record_event (SequenceGet address node) w in
      case accounts w1 address of
        Some v \<Rightarrow> (Inr v, w1)
      | None \<Rightarrow>
          (case fetch node address w1 of
             (Inl e, w2) \<Rightarrow> (Inl e, w2)
           | (Inr v, w2) \<Rightarrow> (Inr v, w2\<lparr>accounts := (accounts w2)(address \<mapsto> v)\<rparr>)))"

definition swtcSequence_rise :: "jsval \<Rightarrow> world \<Rightarrow> world" where
  "swtcSequence_rise address w =
     (let w1 = record_event (SequenceRise address) w in
      case accounts w1 address of
        None \<Rightarrow> w1
      | Some v \<Rightarrow> w1\<lparr>accounts := (accounts w1)(address \<mapsto> v + 1)\<rparr>)"

definition swtcSequence_reset :: "jsval \<Rightarrow> world \<Rightarrow> world" where
  "swtcSequence_reset address w =
     (let w1 = record_event (SequenceReset address) w in
      w1\<lparr>accounts := (accounts w1)(address := None)\<rparr>)"

text \<open>
  The external wallet and serializer (\<open>@swtc/wallet\<close>, \<open>@swtc/serializer\<close>,
  \<open>@swtc/common\<close>) for the chain, taken as parameters. A keypair is what
  \<open>new this.wallet(secret)\<close> builds; a serialized transaction is what
  \<open>this.serializer.from_json\<close> builds.
\<close>

record keypair =
  getPublicKey :: string
  isEd25519 :: bool
  signTx :: "string \<Rightarrow> error + string"

record serialized =
  to_hex :: string
  hash_with :: "nat \<Rightarrow> string"

record swtc =
  new_wallet :: "string \<Rightarrow> error + keypair"
  from_json :: "obj \<Rightarrow> error + serialized"
  transactionSig :: nat
  getFee :: jsval
  getCurrency :: string
  getIssuer :: string

section \<open>Wallet.sign\<close>

record SignResult =
  hash :: string
  blob :: string

text \<open>\<open>prefix.toString(16)\<close>: lower-case hexadecimal digits, most significant first.\<close>

fun hex_digit :: "nat \<Rightarrow> char" where
  "hex_digit n =
     (if n < 10 then (char_of (48 + n) :: char) else char_of (87 + n))"

function toString16 :: "nat \<Rightarrow> string" where
  "toString16 n = (if n < 16 then [hex_digit n] else toString16 (n div 16) @ [hex_digit (n mod 16)])"
  by pat_completeness auto
termination
  by (relation "measure (\<lambda>n. n)") auto

declare toString16.simps [simp del]

text \<open>\<open>toUpperCase\<close> on ASCII letters, which is all a hexadecimal numeral has.\<close>

definition toUpperCase :: "string \<Rightarrow> string" where
  "toUpperCase s =
     map (\<lambda>c::char. if (97::nat) \<le> of_char c \<and> (of_char c :: nat) \<le> 122
                     then (char_of ((of_char c :: nat) - 32) :: char) else c) s"

definition Wallet_sign :: "swtc \<Rightarrow> nat \<Rightarrow> string \<Rightarrow> world \<Rightarrow> (error + SignResult) \<times> world" where
  "Wallet_sign L tx secret w =
     (case new_wallet L secret of
        Inl e \<Rightarrow> (Inl e, w)
      | Inr wallet \<Rightarrow>
          (let (copyTx, w1) = Object_assign_new tx w;
               w2 = set_field copyTx ''SigningPubKey'' (JStr (getPublicKey wallet)) w1;
               prefix = transactionSig L
           in case from_json L (store w2 ! copyTx) of
                Inl e \<Rightarrow> (Inl e, w2)
              | Inr blob' \<Rightarrow>
                  (let hash' = (if isEd25519 wallet
                               then toUpperCase (toString16 prefix) @ to_hex blob'
                               else hash_with blob' prefix)
                   in case signTx wallet hash' of
                        Inl e \<Rightarrow> (Inl e, w2)
                      | Inr signature \<Rightarrow>
                          (let w3 = set_field copyTx ''TxnSignature'' (JStr signature) w2
                           in case from_json L (store w3 ! copyTx) of
                                Inl e \<Rightarrow> (Inl e, w3)
                              | Inr sendBlob \<Rightarrow>
                                  (Inr \<lparr>hash = hash', blob = to_hex sendBlob\<rparr>, w3)))))"

section \<open>Transaction: constructor, getNode, submit\<close>

record transaction =
  nodes :: "string list"
  wallet :: swtc
  retry :: number

text \<open>
  \<open>constructor(chain, nodes, retry = 0)\<close>; the chain is given by its wallet library.
  \<open>retry\<close> is any number, or left out (\<open>None\<close>), which gives the default.
\<close>

definition Transaction_new :: "swtc \<Rightarrow> string list \<Rightarrow> number option \<Rightarrow> transaction" where
  "Transaction_new chain ns r =
     \<lparr>nodes = ns, wallet = chain, retry = (case r of None \<Rightarrow> Finite 0 | Some n \<Rightarrow> n)\<rparr>"

definition Transaction_fetchSequence :: "env \<Rightarrow> string option \<Rightarrow> jsval \<Rightarrow> world \<Rightarrow> (error + nat) \<times> world" where
  "Transaction_fetchSequence E node address w = fetchSequence E node address w"

text \<open>
  \<open>this.nodes[Math.floor(Math.random() * this.nodes.length)]\<close>: undefined (\<open>None\<close>)
  when the index is not one of the array.
\<close>

definition getNode :: "env \<Rightarrow> transaction \<Rightarrow> world \<Rightarrow> string option \<times> world" where
  "getNode E T w =
     (let i = \<lfloor>Math_random E (trace w) * of_nat (length (nodes T))\<rfloor>;
          node = (if 0 \<le> i \<and> i < int (length (nodes T)) then Some (nodes T ! nat i) else None)
      in (node, record_event MathRandom w))"

text \<open>
  Lines 554 to 557 of one pass of the loop: copy the transaction, resolve the sequence
  for \<open>tx.Account\<close>, stamp it on the copy, sign the copy. Making the copy does not
  touch \<open>tx\<close>, so \<open>tx.Account\<close> is read from the object as the pass found it.
\<close>

definition submit_sign :: "env \<Rightarrow> transaction \<Rightarrow> string \<Rightarrow> nat \<Rightarrow> string option \<Rightarrow> world
     \<Rightarrow> (error + SignResult) \<times> world" where
  "submit_sign E T secret tx node w =
     (let (copyTx, w1) = Object_assign_new tx w
      in case deref w tx of
           None \<Rightarrow> (Inl TypeError, w1)
         | Some fs \<Rightarrow>
             (case swtcSequence_get (Transaction_fetchSequence E) (field fs ''Account'') node w1 of
                (Inl e, w2) \<Rightarrow> (Inl e, w2)
              | (Inr sequence, w2) \<Rightarrow>
                  (let w3 = set_field copyTx ''Sequence'' (JNum (int sequence)) w2
                   in Wallet_sign (wallet T) copyTx secret w3)))"

text \<open>\<open>res?.result?.engine_result\<close> and \<open>res.result.tx_json.hash\<close>.\<close>

definition res_engine_result :: "jsval \<Rightarrow> jsval" where
  "res_engine_result res = opt_prop (opt_prop res ''result'') ''engine_result''"

definition res_tx_json_hash :: "jsval \<Rightarrow> error + jsval" where
  "res_tx_json_hash res =
     (case get_prop res ''result'' of
        Inl e \<Rightarrow> Inl e
      | Inr result \<Rightarrow>
          (case get_prop result ''tx_json'' of
             Inl e \<Rightarrow> Inl e
           | Inr tx_json \<Rightarrow> get_prop tx_json ''hash''))"

text \<open>
  Lines 559 to 571: classify the node's response \<open>res\<close>. The result is the new values
  of the loop's variables \<open>hash\<close> and \<open>retry\<close>, or the error thrown. (The variables
  are written \<open>hash'\<close> and \<open>retry'\<close>: the plain names are those of the record fields.)
\<close>

definition submit_classify :: "env \<Rightarrow> nat \<Rightarrow> jsval \<Rightarrow> jsval \<Rightarrow> number \<Rightarrow> world
     \<Rightarrow> (error + jsval \<times> number) \<times> world" where
  "submit_classify E tx res hash' retry' w =
     (let engine_result = res_engine_result res
      in if engine_result = JStr ''tesSUCCESS'' then
           (case res_tx_json_hash res of
              Inl e \<Rightarrow> (Inl e, w)
            | Inr h \<Rightarrow> (Inr (h, retry'), w))
         else if engine_result \<noteq> JStr ''terPRE_SEQ'' \<and> engine_result \<noteq> JStr ''tefPAST_SEQ'' then
           (Inl (new_Error (JSON_stringify E res)), w)
         else
           (let retry' = minus_one retry'
            in case deref w tx of
                 None \<Rightarrow> (Inl TypeError, w)
               | Some fs \<Rightarrow>
                   (let w1 = swtcSequence_reset (field fs ''Account'') w
                    in if less_zero retry' then (Inl (new_Error (JSON_stringify E res)), w1)
                       else (Inr (hash', retry'), w1))))"

text \<open>The body of the \<open>while\<close> loop, lines 554 to 571.\<close>

definition submit_body :: "env \<Rightarrow> transaction \<Rightarrow> string \<Rightarrow> nat \<Rightarrow> string option \<Rightarrow> jsval \<Rightarrow> number \<Rightarrow> world
     \<Rightarrow> (error + jsval \<times> number) \<times> world" where
  "submit_body E T secret tx node hash' retry' w =
     (case submit_sign E T secret tx node w of
        (Inl e, w1) \<Rightarrow> (Inl e, w1)
      | (Inr signed, w1) \<Rightarrow>
          (case submitTransaction E node (blob signed) w1 of
             (Inl e, w2) \<Rightarrow> (Inl e, w2)
           | (Inr res, w2) \<Rightarrow> submit_classify E tx res hash' retry' w2))"

text \<open>
  \<open>while (!hash) { ... } return hash\<close>. The loop may run forever, so the result is an
  option: \<open>None\<close> is a call that never returns.
\<close>

partial_function (option) submit_while ::
  "env \<Rightarrow> transaction \<Rightarrow> string \<Rightarrow> nat \<Rightarrow> string option \<Rightarrow> jsval \<Rightarrow> number \<Rightarrow> world
     \<Rightarrow> ((error + jsval) \<times> world) option" where
  "submit_while E T secret tx node hash' retry' w =
     (if \<not> truthy hash' then
        (case submit_body E T secret tx node hash' retry' w of
           (Inl e, w1) \<Rightarrow> Some (Inl e, w1)
         | (Inr (hash1, retry1), w1) \<Rightarrow> submit_while E T secret tx node hash1 retry1 w1)
      else Some (Inr hash', w))"

declare submit_while.simps [code]

definition submit :: "env \<Rightarrow> transaction \<Rightarrow> string \<Rightarrow> nat \<Rightarrow> world \<Rightarrow> ((error + jsval) \<times> world) option" where
  "submit E T secret tx w =
     (let hash' = JUndefined;
          retry' = retry T;
          (node, w1) = getNode E T w
      in submit_while E T secret tx node hash' retry' w1)"

section \<open>The facade operations\<close>

text \<open>
  The transaction constructors of \<open>./tx\<close> are outside the source and are taken as
  parameters: each builds the own properties of a new transaction object, or throws.
  Arguments that are only passed through to them and are not strings (numbers, memos,
  flags, optional lists) are \<open>jsval\<close>.
\<close>

record tx_builders =
  serializeCreateOrder :: "string \<Rightarrow> string \<Rightarrow> string \<Rightarrow> string \<Rightarrow> string \<Rightarrow> jsval \<Rightarrow> string \<Rightarrow> string \<Rightarrow> jsval \<Rightarrow> string \<Rightarrow> error + obj"
  serializeCancelOrder :: "string \<Rightarrow> jsval \<Rightarrow> jsval \<Rightarrow> error + obj"
  serializePayment :: "string \<Rightarrow> string \<Rightarrow> string \<Rightarrow> string \<Rightarrow> jsval \<Rightarrow> jsval \<Rightarrow> string \<Rightarrow> string \<Rightarrow> error + obj"
  serializeBrokerage :: "string \<Rightarrow> string \<Rightarrow> jsval \<Rightarrow> jsval \<Rightarrow> string \<Rightarrow> string \<Rightarrow> jsval \<Rightarrow> error + obj"
  serializeSetBlackList :: "string \<Rightarrow> string \<Rightarrow> jsval \<Rightarrow> jsval \<Rightarrow> error + obj"
  serializeRemoveBlackList :: "string \<Rightarrow> string \<Rightarrow> jsval \<Rightarrow> jsval \<Rightarrow> error + obj"
  serializeManageIssuer :: "string \<Rightarrow> string \<Rightarrow> jsval \<Rightarrow> jsval \<Rightarrow> error + obj"
  serializeIssueSet :: "string \<Rightarrow> string \<Rightarrow> string \<Rightarrow> jsval \<Rightarrow> jsval \<Rightarrow> jsval \<Rightarrow> error + obj"
  serializeSignerList :: "string \<Rightarrow> jsval \<Rightarrow> jsval \<Rightarrow> jsval \<Rightarrow> error + obj"
  serializeSetAccount :: "string \<Rightarrow> bool \<Rightarrow> jsval \<Rightarrow> error + obj"
  serialize721Payment :: "string \<Rightarrow> string \<Rightarrow> string \<Rightarrow> jsval \<Rightarrow> jsval \<Rightarrow> error + obj"
  serialize721Delete :: "string \<Rightarrow> string \<Rightarrow> jsval \<Rightarrow> error + obj"
  serializeTokenIssue :: "string \<Rightarrow> string \<Rightarrow> jsval \<Rightarrow> string \<Rightarrow> jsval \<Rightarrow> jsval \<Rightarrow> error + obj"
  serialize721Publish :: "string \<Rightarrow> string \<Rightarrow> string \<Rightarrow> string \<Rightarrow> jsval \<Rightarrow> jsval \<Rightarrow> error + obj"

text \<open>The object a constructor returns is new in the store.\<close>

definition new_object :: "obj \<Rightarrow> world \<Rightarrow> nat \<times> world" where
  "new_object fs w = (length (store w), w\<lparr>store := store w @ [fs]\<rparr>)"

text \<open>\<open>issuer || this.wallet.getIssuer()\<close> for an optional string \<open>issuer\<close>.\<close>

definition or_else :: "string option \<Rightarrow> string \<Rightarrow> string" where
  "or_else v d = (case v of None \<Rightarrow> d | Some s \<Rightarrow> if s = [] then d else s)"

text \<open>
  Each operation is \<open>try { tx = serialize...; hash = await this.submit(secret, tx);
  swtcSequence.rise(a); return hash } catch (error) { swtcSequence.reset(a); throw error }\<close>.
\<close>

definition createOrder ::
  "env \<Rightarrow> tx_builders \<Rightarrow> transaction \<Rightarrow> string \<Rightarrow> string \<Rightarrow> string \<Rightarrow> string \<Rightarrow> string \<Rightarrow> string \<Rightarrow> jsval \<Rightarrow> string \<Rightarrow> string option \<Rightarrow> world
     \<Rightarrow> ((error + jsval) \<times> world) option" where
  "createOrder E X T address secret amount base counter sum1 type' platform issuer w =
     (case serializeCreateOrder X address amount base counter sum1 type' platform
             (getCurrency (wallet T)) (getFee (wallet T)) (or_else issuer (getIssuer (wallet T))) of
        Inl error \<Rightarrow> Some (Inl error, swtcSequence_reset (JStr address) w)
      | Inr built \<Rightarrow>
          (let (tx, w1) = new_object built w
           in case submit E T secret tx w1 of
                None \<Rightarrow> None
              | Some (Inr hash', w2) \<Rightarrow> Some (Inr hash', swtcSequence_rise (JStr address) w2)
              | Some (Inl error, w2) \<Rightarrow> Some (Inl error, swtcSequence_reset (JStr address) w2)))"

definition cancelOrder ::
  "env \<Rightarrow> tx_builders \<Rightarrow> transaction \<Rightarrow> string \<Rightarrow> string \<Rightarrow> jsval \<Rightarrow> world
     \<Rightarrow> ((error + jsval) \<times> world) option" where
  "cancelOrder E X T address secret offerSequence w =
     (case serializeCancelOrder X address offerSequence (getFee (wallet T)) of
        Inl error \<Rightarrow> Some (Inl error, swtcSequence_reset (JStr address) w)
      | Inr built \<Rightarrow>
          (let (tx, w1) = new_object built w
           in case submit E T secret tx w1 of
                None \<Rightarrow> None
              | Some (Inr hash', w2) \<Rightarrow> Some (Inr hash', swtcSequence_rise (JStr address) w2)
              | Some (Inl error, w2) \<Rightarrow> Some (Inl error, swtcSequence_reset (JStr address) w2)))"

definition transfer ::
  "env \<Rightarrow> tx_builders \<Rightarrow> transaction \<Rightarrow> string \<Rightarrow> string \<Rightarrow> string \<Rightarrow> jsval \<Rightarrow> string \<Rightarrow> string \<Rightarrow> string option \<Rightarrow> world
     \<Rightarrow> ((error + jsval) \<times> world) option" where
  "transfer E X T address secret amount memo to' token issuer w =
     (case serializePayment X address amount to' token memo (getFee (wallet T))
             (getCurrency (wallet T)) (or_else issuer (getIssuer (wallet T))) of
        Inl error \<Rightarrow> Some (Inl error, swtcSequence_reset (JStr address) w)
      | Inr built \<Rightarrow>
          (let (tx, w1) = new_object built w
           in case submit E T secret tx w1 of
                None \<Rightarrow> None
              | Some (Inr hash', w2) \<Rightarrow> Some (Inr hash', swtcSequence_rise (JStr address) w2)
              | Some (Inl error, w2) \<Rightarrow> Some (Inl error, swtcSequence_reset (JStr address) w2)))"

definition setBrokerage ::
  "env \<Rightarrow> tx_builders \<Rightarrow> transaction \<Rightarrow> string \<Rightarrow> string \<Rightarrow> string \<Rightarrow> jsval \<Rightarrow> jsval \<Rightarrow> string \<Rightarrow> string option \<Rightarrow> world
     \<Rightarrow> ((error + jsval) \<times> world) option" where
  "setBrokerage E X T platformAccount platformSecret feeAccount rateNum rateDen token issuer w =
     (case serializeBrokerage X platformAccount feeAccount rateNum rateDen token
             (or_else issuer (getIssuer (wallet T))) (getFee (wallet T)) of
        Inl error \<Rightarrow> Some (Inl error, swtcSequence_reset (JStr platformAccount) w)
      | Inr built \<Rightarrow>
          (let (tx, w1) = new_object built w
           in case submit E T platformSecret tx w1 of
                None \<Rightarrow> None
              | Some (Inr hash', w2) \<Rightarrow> Some (Inr hash', swtcSequence_rise (JStr platformAccount) w2)
              | Some (Inl error, w2) \<Rightarrow> Some (Inl error, swtcSequence_reset (JStr platformAccount) w2)))"

definition addBlackList ::
  "env \<Rightarrow> tx_builders \<Rightarrow> transaction \<Rightarrow> string \<Rightarrow> string \<Rightarrow> string \<Rightarrow> jsval \<Rightarrow> world
     \<Rightarrow> ((error + jsval) \<times> world) option" where
  "addBlackList E X T address secret account memo w =
     (case serializeSetBlackList X address account memo (getFee (wallet T)) of
        Inl error \<Rightarrow> Some (Inl error, swtcSequence_reset (JStr address) w)
      | Inr built \<Rightarrow>
          (let (tx, w1) = new_object built w
           in case submit E T secret tx w1 of
                None \<Rightarrow> None
              | Some (Inr hash', w2) \<Rightarrow> Some (Inr hash', swtcSequence_rise (JStr address) w2)
              | Some (Inl error, w2) \<Rightarrow> Some (Inl error, swtcSequence_reset (JStr address) w2)))"

definition removeBlackList ::
  "env \<Rightarrow> tx_builders \<Rightarrow> transaction \<Rightarrow> string \<Rightarrow> string \<Rightarrow> string \<Rightarrow> jsval \<Rightarrow> world
     \<Rightarrow> ((error + jsval) \<times> world) option" where
  "removeBlackList E X T address secret account memo w =
     (case serializeRemoveBlackList X address account memo (getFee (wallet T)) of
        Inl error \<Rightarrow> Some (Inl error, swtcSequence_reset (JStr address) w)
      | Inr built \<Rightarrow>
          (let (tx, w1) = new_object built w
           in case submit E T secret tx w1 of
                None \<Rightarrow> None
              | Some (Inr hash', w2) \<Rightarrow> Some (Inr hash', swtcSequence_rise (JStr address) w2)
              | Some (Inl error, w2) \<Rightarrow> Some (Inl error, swtcSequence_reset (JStr address) w2)))"

definition setManageIssuer ::
  "env \<Rightarrow> tx_builders \<Rightarrow> transaction \<Rightarrow> string \<Rightarrow> string \<Rightarrow> string \<Rightarrow> jsval \<Rightarrow> world
     \<Rightarrow> ((error + jsval) \<times> world) option" where
  "setManageIssuer E X T address secret account memo w =
     (case serializeManageIssuer X address account memo (getFee (wallet T)) of
        Inl error \<Rightarrow> Some (Inl error, swtcSequence_reset (JStr address) w)
      | Inr built \<Rightarrow>
          (let (tx, w1) = new_object built w
           in case submit E T secret tx w1 of
                None \<Rightarrow> None
              | Some (Inr hash', w2) \<Rightarrow> Some (Inr hash', swtcSequence_rise (JStr address) w2)
              | Some (Inl error, w2) \<Rightarrow> Some (Inl error, swtcSequence_reset (JStr address) w2)))"

definition issueSet ::
  "env \<Rightarrow> tx_builders \<Rightarrow> transaction \<Rightarrow> string \<Rightarrow> string \<Rightarrow> string \<Rightarrow> jsval \<Rightarrow> string \<Rightarrow> jsval \<Rightarrow> world
     \<Rightarrow> ((error + jsval) \<times> world) option" where
  "issueSet E X T address secret amount memo token issuer w =
     (case serializeIssueSet X address amount token memo issuer (getFee (wallet T)) of
        Inl error \<Rightarrow> Some (Inl error, swtcSequence_reset (JStr address) w)
      | Inr built \<Rightarrow>
          (let (tx, w1) = new_object built w
           in case submit E T secret tx w1 of
                None \<Rightarrow> None
              | Some (Inr hash', w2) \<Rightarrow> Some (Inr hash', swtcSequence_rise (JStr address) w2)
              | Some (Inl error, w2) \<Rightarrow> Some (Inl error, swtcSequence_reset (JStr address) w2)))"

definition setSignerList ::
  "env \<Rightarrow> tx_builders \<Rightarrow> transaction \<Rightarrow> string \<Rightarrow> string \<Rightarrow> jsval \<Rightarrow> jsval \<Rightarrow> world
     \<Rightarrow> ((error + jsval) \<times> world) option" where
  "setSignerList E X T address secret signerQuorum signerEntries w =
     (case serializeSignerList X address signerQuorum (getFee (wallet T)) signerEntries of
        Inl error \<Rightarrow> Some (Inl error, swtcSequence_reset (JStr address) w)
      | Inr built \<Rightarrow>
          (let (tx, w1) = new_object built w
           in case submit E T secret tx w1 of
                None \<Rightarrow> None
              | Some (Inr hash', w2) \<Rightarrow> Some (Inr hash', swtcSequence_rise (JStr address) w2)
              | Some (Inl error, w2) \<Rightarrow> Some (Inl error, swtcSequence_reset (JStr address) w2)))"

definition setAccount ::
  "env \<Rightarrow> tx_builders \<Rightarrow> transaction \<Rightarrow> string \<Rightarrow> string \<Rightarrow> bool \<Rightarrow> world
     \<Rightarrow> ((error + jsval) \<times> world) option" where
  "setAccount E X T address secret disable w =
     (case serializeSetAccount X address disable (getFee (wallet T)) of
        Inl error \<Rightarrow> Some (Inl error, swtcSequence_reset (JStr address) w)
      | Inr built \<Rightarrow>
          (let (tx, w1) = new_object built w
           in case submit E T secret tx w1 of
                None \<Rightarrow> None
              | Some (Inr hash', w2) \<Rightarrow> Some (Inr hash', swtcSequence_rise (JStr address) w2)
              | Some (Inl error, w2) \<Rightarrow> Some (Inl error, swtcSequence_reset (JStr address) w2)))"

definition transfer721 ::
  "env \<Rightarrow> tx_builders \<Rightarrow> transaction \<Rightarrow> string \<Rightarrow> string \<Rightarrow> string \<Rightarrow> string \<Rightarrow> jsval \<Rightarrow> world
     \<Rightarrow> ((error + jsval) \<times> world) option" where
  "transfer721 E X T account secret receiver tokenId memo w =
     (case serialize721Payment X account receiver tokenId (getFee (wallet T)) memo of
        Inl error \<Rightarrow> Some (Inl error, swtcSequence_reset (JStr account) w)
      | Inr built \<Rightarrow>
          (let (tx, w1) = new_object built w
           in case submit E T secret tx w1 of
                None \<Rightarrow> None
              | Some (Inr hash', w2) \<Rightarrow> Some (Inr hash', swtcSequence_rise (JStr account) w2)
              | Some (Inl error, w2) \<Rightarrow> Some (Inl error, swtcSequence_reset (JStr account) w2)))"

definition delete721 ::
  "env \<Rightarrow> tx_builders \<Rightarrow> transaction \<Rightarrow> string \<Rightarrow> string \<Rightarrow> string \<Rightarrow> world
     \<Rightarrow> ((error + jsval) \<times> world) option" where
  "delete721 E X T account secret tokenId w =
     (case serialize721Delete X account tokenId (getFee (wallet T)) of
        Inl error \<Rightarrow> Some (Inl error, swtcSequence_reset (JStr account) w)
      | Inr built \<Rightarrow>
          (let (tx, w1) = new_object built w
           in case submit E T secret tx w1 of
                None \<Rightarrow> None
              | Some (Inr hash', w2) \<Rightarrow> Some (Inr hash', swtcSequence_rise (JStr account) w2)
              | Some (Inl error, w2) \<Rightarrow> Some (Inl error, swtcSequence_reset (JStr account) w2)))"

definition setTokenIssue ::
  "env \<Rightarrow> tx_builders \<Rightarrow> transaction \<Rightarrow> string \<Rightarrow> string \<Rightarrow> string \<Rightarrow> jsval \<Rightarrow> string \<Rightarrow> jsval \<Rightarrow> world
     \<Rightarrow> ((error + jsval) \<times> world) option" where
  "setTokenIssue E X T account secret publisher amount token flag w =
     (case serializeTokenIssue X account publisher amount token flag (getFee (wallet T)) of
        Inl error \<Rightarrow> Some (Inl error, swtcSequence_reset (JStr account) w)
      | Inr built \<Rightarrow>
          (let (tx, w1) = new_object built w
           in case submit E T secret tx w1 of
                None \<Rightarrow> None
              | Some (Inr hash', w2) \<Rightarrow> Some (Inr hash', swtcSequence_rise (JStr account) w2)
              | Some (Inl error, w2) \<Rightarrow> Some (Inl error, swtcSequence_reset (JStr account) w2)))"

definition publish721 ::
  "env \<Rightarrow> tx_builders \<Rightarrow> transaction \<Rightarrow> string \<Rightarrow> string \<Rightarrow> string \<Rightarrow> string \<Rightarrow> string \<Rightarrow> jsval \<Rightarrow> world
     \<Rightarrow> ((error + jsval) \<times> world) option" where
  "publish721 E X T account secret receiver token tokenId tokenInfos w =
     (case serialize721Publish X account receiver token tokenId (getFee (wallet T))
             tokenInfos of
        Inl error \<Rightarrow> Some (Inl error, swtcSequence_reset (JStr account) w)
      | Inr built \<Rightarrow>
          (let (tx, w1) = new_object built w
           in case submit E T secret tx w1 of
                None \<Rightarrow> None
              | Some (Inr hash', w2) \<Rightarrow> Some (Inr hash', swtcSequence_rise (JStr account) w2)
              | Some (Inl error, w2) \<Rightarrow> Some (Inl error, swtcSequence_reset (JStr account) w2)))"

text \<open>
  A call of a public operation with its arguments, to state properties of all of them;
  \<open>acting_account\<close> is its first argument, \<open>signing_secret\<close> its second, and
  \<open>build\<close> the constructor call it makes.
\<close>

datatype facade_call =
    CreateOrder string string string string string string jsval string "string option"
  | CancelOrder string string jsval
  | Transfer string string string jsval string string "string option"
  | SetBrokerage string string string jsval jsval string "string option"
  | AddBlackList string string string jsval
  | RemoveBlackList string string string jsval
  | SetManageIssuer string string string jsval
  | IssueSet string string string jsval string jsval
  | SetSignerList string string jsval jsval
  | SetAccount string string bool
  | Transfer721 string string string string jsval
  | Delete721 string string string
  | SetTokenIssue string string string jsval string jsval
  | Publish721 string string string string string jsval

fun invoke :: "env \<Rightarrow> tx_builders \<Rightarrow> transaction \<Rightarrow> facade_call \<Rightarrow> world \<Rightarrow> ((error + jsval) \<times> world) option" where
  "invoke E X T (CreateOrder address secret amount base counter sum1 type' platform issuer) w =
     createOrder E X T address secret amount base counter sum1 type' platform issuer w"
| "invoke E X T (CancelOrder address secret offerSequence) w =
     cancelOrder E X T address secret offerSequence w"
| "invoke E X T (Transfer address secret amount memo to' token issuer) w =
     transfer E X T address secret amount memo to' token issuer w"
| "invoke E X T (SetBrokerage platformAccount platformSecret feeAccount rateNum rateDen token issuer) w =
     setBrokerage E X T platformAccount platformSecret feeAccount rateNum rateDen token issuer w"
| "invoke E X T (AddBlackList address secret account memo) w =
     addBlackList E X T address secret account memo w"
| "invoke E X T (RemoveBlackList address secret account memo) w =
     removeBlackList E X T address secret account memo w"
| "invoke E X T (SetManageIssuer address secret account memo) w =
     setManageIssuer E X T address secret account memo w"
| "invoke E X T (IssueSet address secret amount memo token issuer) w =
     issueSet E X T address secret amount memo token issuer w"
| "invoke E X T (SetSignerList address secret signerQuorum signerEntries) w =
     setSignerList E X T address secret signerQuorum signerEntries w"
| "invoke E X T (SetAccount address secret disable) w =
     setAccount E X T address secret disable w"
| "invoke E X T (Transfer721 account secret receiver tokenId memo) w =
     transfer721 E X T account secret receiver tokenId memo w"
| "invoke E X T (Delete721 account secret tokenId) w =
     delete721 E X T account secret tokenId w"
| "invoke E X T (SetTokenIssue account secret publisher amount token flag) w =
     setTokenIssue E X T account secret publisher amount token flag w"
| "invoke E X T (Publish721 account secret receiver token tokenId tokenInfos) w =
     publish721 E X T account secret receiver token tokenId tokenInfos w"

fun acting_account :: "facade_call \<Rightarrow> string" where
  "acting_account (CreateOrder address secret amount base counter sum1 type' platform issuer) = address"
| "acting_account (CancelOrder address secret offerSequence) = address"
| "acting_account (Transfer address secret amount memo to' token issuer) = address"
| "acting_account (SetBrokerage platformAccount platformSecret feeAccount rateNum rateDen token issuer) = platformAccount"
| "acting_account (AddBlackList address secret account memo) = address"
| "acting_account (RemoveBlackList address secret account memo) = address"
| "acting_account (SetManageIssuer address secret account memo) = address"
| "acting_account (IssueSet address secret amount memo token issuer) = address"
| "acting_account (SetSignerList address secret signerQuorum signerEntries) = address"
| "acting_account (SetAccount address secret disable) = address"
| "acting_account (Transfer721 account secret receiver tokenId memo) = account"
| "acting_account (Delete721 account secret tokenId) = account"
| "acting_account (SetTokenIssue account secret publisher amount token flag) = account"
| "acting_account (Publish721 account secret receiver token tokenId tokenInfos) = account"

fun signing_secret :: "facade_call \<Rightarrow> string" where
  "signing_secret (CreateOrder address secret amount base counter sum1 type' platform issuer) = secret"
| "signing_secret (CancelOrder address secret offerSequence) = secret"
| "signing_secret (Transfer address secret amount memo to' token issuer) = secret"
| "signing_secret (SetBrokerage platformAccount platformSecret feeAccount rateNum rateDen token issuer) = platformSecret"
| "signing_secret (AddBlackList address secret account memo) = secret"
| "signing_secret (RemoveBlackList address secret account memo) = secret"
| "signing_secret (SetManageIssuer address secret account memo) = secret"
| "signing_secret (IssueSet address secret amount memo token issuer) = secret"
| "signing_secret (SetSignerList address secret signerQuorum signerEntries) = secret"
| "signing_secret (SetAccount address secret disable) = secret"
| "signing_secret (Transfer721 account secret receiver tokenId memo) = secret"
| "signing_secret (Delete721 account secret tokenId) = secret"
| "signing_secret (SetTokenIssue account secret publisher amount token flag) = secret"
| "signing_secret (Publish721 account secret receiver token tokenId tokenInfos) = secret"

fun build :: "tx_builders \<Rightarrow> transaction \<Rightarrow> facade_call \<Rightarrow> error + obj" where
  "build X T (CreateOrder address secret amount base counter sum1 type' platform issuer) =
     serializeCreateOrder X address amount base counter sum1 type' platform (getCurrency (wallet T)) (getFee (wallet T)) (or_else issuer (getIssuer (wallet T)))"
| "build X T (CancelOrder address secret offerSequence) =
     serializeCancelOrder X address offerSequence (getFee (wallet T))"
| "build X T (Transfer address secret amount memo to' token issuer) =
     serializePayment X address amount to' token memo (getFee (wallet T)) (getCurrency (wallet T)) (or_else issuer (getIssuer (wallet T)))"
| "build X T (SetBrokerage platformAccount platformSecret feeAccount rateNum rateDen token issuer) =
     serializeBrokerage X platformAccount feeAccount rateNum rateDen token (or_else issuer (getIssuer (wallet T))) (getFee (wallet T))"
| "build X T (AddBlackList address secret account memo) =
     serializeSetBlackList X address account memo (getFee (wallet T))"
| "build X T (RemoveBlackList address secret account memo) =
     serializeRemoveBlackList X address account memo (getFee (wallet T))"
| "build X T (SetManageIssuer address secret account memo) =
     serializeManageIssuer X address account memo (getFee (wallet T))"
| "build X T (IssueSet address secret amount memo token issuer) =
     serializeIssueSet X address amount token memo issuer (getFee (wallet T))"
| "build X T (SetSignerList address secret signerQuorum signerEntries) =
     serializeSignerList X address signerQuorum (getFee (wallet T)) signerEntries"
| "build X T (SetAccount address secret disable) =
     serializeSetAccount X address disable (getFee (wallet T))"
| "build X T (Transfer721 account secret receiver tokenId memo) =
     serialize721Payment X account receiver tokenId (getFee (wallet T)) memo"
| "build X T (Delete721 account secret tokenId) =
     serialize721Delete X account tokenId (getFee (wallet T))"
| "build X T (SetTokenIssue account secret publisher amount token flag) =
     serializeTokenIssue X account publisher amount token flag (getFee (wallet T))"
| "build X T (Publish721 account secret receiver token tokenId tokenInfos) =
     serialize721Publish X account receiver token tokenId (getFee (wallet T)) tokenInfos"

section \<open>Observations\<close>

text \<open>
  What a call did is read off the trace: the submission attempts are the
  \<open>submitTransaction\<close> calls, the resolutions the \<open>swtcSequence.get\<close> calls, the fetches
  the \<open>fetchSequence\<close> calls.
\<close>

fun is_submission :: "event \<Rightarrow> bool" where
  "is_submission (SubmitTransaction node b) = True"
| "is_submission e = False"

fun is_resolution :: "event \<Rightarrow> bool" where
  "is_resolution (SequenceGet a node) = True"
| "is_resolution e = False"

fun is_fetch :: "event \<Rightarrow> bool" where
  "is_fetch (FetchSequence node a) = True"
| "is_fetch e = False"

definition submissions :: "event list \<Rightarrow> nat" where
  "submissions t = length (filter is_submission t)"

definition resolutions :: "event list \<Rightarrow> nat" where
  "resolutions t = length (filter is_resolution t)"

definition fetches :: "event list \<Rightarrow> nat" where
  "fetches t = length (filter is_fetch t)"

text \<open>The events of a call that started in \<open>w\<close> and ended in \<open>w'\<close>.\<close>

definition events_since :: "world \<Rightarrow> world \<Rightarrow> event list" where
  "events_since w w' = drop (length (trace w)) (trace w')"

text \<open>
  The events of one resolution for account \<open>a\<close>: the call of \<open>swtcSequence.get\<close>, and
  the fetch it makes when the cache of \<open>w\<close> has nothing for \<open>a\<close>.
\<close>

definition resolution_events :: "jsval \<Rightarrow> string option \<Rightarrow> world \<Rightarrow> event list" where
  "resolution_events a node w =
     SequenceGet a node # (case accounts w a of None \<Rightarrow> [FetchSequence node a] | Some v \<Rightarrow> [])"

text \<open>An event that names node \<open>n\<close>, or none; \<open>Math.random\<close> is neither.\<close>

fun uses_node :: "string option \<Rightarrow> event \<Rightarrow> bool" where
  "uses_node n MathRandom = False"
| "uses_node n (SequenceGet a m) = (m = n)"
| "uses_node n (FetchSequence m a) = (m = n)"
| "uses_node n (SubmitTransaction m b) = (m = n)"
| "uses_node n (SequenceRise a) = True"
| "uses_node n (SequenceReset a) = True"

text \<open>Every object of \<open>w\<close> is in \<open>w'\<close> at the same reference with the same properties.\<close>

definition objects_kept :: "world \<Rightarrow> world \<Rightarrow> bool" where
  "objects_kept w w' \<longleftrightarrow> take (length (store w)) (store w') = store w"

text \<open>What a call returned or threw, and how many submission attempts it made.\<close>

definition returned :: "((error + jsval) \<times> world) option \<Rightarrow> (error + jsval) option" where
  "returned r = map_option fst r"

definition attempts :: "world \<Rightarrow> ((error + jsval) \<times> world) option \<Rightarrow> nat option" where
  "attempts w r = map_option (\<lambda>(x, w'). submissions (events_since w w')) r"

text \<open>
  The states of the loop of one call, each the values of \<open>hash\<close> and \<open>retry\<close> and the
  world at the head of the \<open>while\<close>: the state the loop is entered in, and the state a
  pass that does not throw leaves for the next test of \<open>!hash\<close>.
\<close>

inductive loop_reaches ::
  "env \<Rightarrow> transaction \<Rightarrow> string \<Rightarrow> nat \<Rightarrow> string option
     \<Rightarrow> jsval \<times> number \<times> world \<Rightarrow> jsval \<times> number \<times> world \<Rightarrow> bool"
  for E T secret tx node
where
  entered: "loop_reaches E T secret tx node s s"
| pass: "loop_reaches E T secret tx node s (h, r, v) \<Longrightarrow> \<not> truthy h \<Longrightarrow>
         submit_body E T secret tx node h r v = (Inr (h1, r1), v1) \<Longrightarrow>
         loop_reaches E T secret tx node s (h1, r1, v1)"

text \<open>What \<open>sign\<close> returns for a transaction object with the own properties \<open>fs\<close>.\<close>

definition sign_fields :: "swtc \<Rightarrow> obj \<Rightarrow> string \<Rightarrow> error + SignResult" where
  "sign_fields L fs secret =
     fst (Wallet_sign L 0 secret \<lparr>accounts = Map.empty, store = [fs], trace = []\<rparr>)"

section \<open>Assumptions on the collaborators\<close>

text \<open>
  The spec puts failures of the RPC transport and of the signer out of scope. Where a
  property needs every round trip and every signature to succeed, it says so with these.
\<close>

definition fetch_never_fails :: "env \<Rightarrow> bool" where
  "fetch_never_fails E \<longleftrightarrow> (\<forall>t node a. \<exists>s. fetchSequence_reply E t node a = Inr s)"

definition signer_never_fails :: "swtc \<Rightarrow> string \<Rightarrow> bool" where
  "signer_never_fails L secret \<longleftrightarrow>
     (\<exists>k. new_wallet L secret = Inr k \<and> (\<forall>h. \<exists>s. signTx k h = Inr s)) \<and>
     (\<forall>fs. \<exists>b. from_json L fs = Inr b)"

section \<open>A scripted node\<close>

text \<open>
  A node that answers the k-th submission with the k-th response of a script (and with a
  transport failure after the script), and a sequence fetch with 5 plus the number of
  submissions so far; a chain whose signer never fails and whose serializer writes each
  property name followed by its value (a string as it is, a number as that many strokes);
  a world with one transaction object of account \<open>jA\<close>.
\<close>

definition response :: "string \<Rightarrow> string \<Rightarrow> jsval" where
  "response engine_result h =
     JObj [(''result'', JObj [(''engine_result'', JStr engine_result),
                              (''tx_json'', JObj [(''hash'', JStr h)])])]"

definition scripted :: "jsval list \<Rightarrow> env" where
  "scripted rs =
     \<lparr>fetchSequence_reply = (\<lambda>t node a. Inr (5 + submissions t)),
      submitTransaction_reply =
        (\<lambda>t node b. if submissions t < length rs then Inr (rs ! submissions t)
                    else Inl (Error ''timeout'')),
      Math_random = (\<lambda>t. 1 / 2),
      JSON_stringify = (\<lambda>v. case v of JUndefined \<Rightarrow> None | _ \<Rightarrow> Some ''json'')\<rparr>"

text \<open>A node that answers every submission with the same response.\<close>

definition stubborn :: "jsval \<Rightarrow> env" where
  "stubborn res =
     \<lparr>fetchSequence_reply = (\<lambda>t node a. Inr (5 + submissions t)),
      submitTransaction_reply = (\<lambda>t node b. Inr res),
      Math_random = (\<lambda>t. 1 / 2),
      JSON_stringify = (\<lambda>v. case v of JUndefined \<Rightarrow> None | _ \<Rightarrow> Some ''json'')\<rparr>"

fun tally :: "jsval \<Rightarrow> string" where
  "tally (JStr s) = s"
| "tally (JNum n) = replicate (nat n) (CHR ''1'')"
| "tally v = []"

definition demo_chain :: swtc where
  "demo_chain =
     \<lparr>new_wallet = (\<lambda>s. Inr \<lparr>getPublicKey = ''PK'', isEd25519 = False,
                              signTx = (\<lambda>h. Inr (''SIG'' @ h))\<rparr>),
      from_json = (\<lambda>fs. Inr \<lparr>to_hex = concat (map (\<lambda>(k, v). k @ tally v) fs),
                              hash_with = (\<lambda>p. ''H'')\<rparr>),
      transactionSig = 1398036480,
      getFee = JNum 10, getCurrency = ''SWT'', getIssuer = ''jGa''\<rparr>"

definition demo_world :: world where
  "demo_world =
     \<lparr>accounts = Map.empty,
      store = [[(''Account'', JStr ''jA''), (''Fee'', JNum 10)]],
      trace = []\<rparr>"

text \<open>
  Transaction constructors that build a three-property object for the acting account and
  never throw.
\<close>

definition demo_tx :: "string \<Rightarrow> string \<Rightarrow> obj" where
  "demo_tx kind account = [(''TransactionType'', JStr kind), (''Account'', JStr account), (''Fee'', JNum 10)]"

definition demo_builders :: tx_builders where
  "demo_builders =
     \<lparr>serializeCreateOrder =
        (\<lambda>address amount base counter sum1 type' platform currency fee issuer.
           Inr (demo_tx ''OfferCreate'' address)),
      serializeCancelOrder = (\<lambda>address offerSequence fee. Inr (demo_tx ''OfferCancel'' address)),
      serializePayment =
        (\<lambda>address amount to' token memo fee currency issuer. Inr (demo_tx ''Payment'' address)),
      serializeBrokerage =
        (\<lambda>platformAccount feeAccount rateNum rateDen token issuer fee.
           Inr (demo_tx ''Brokerage'' platformAccount)),
      serializeSetBlackList = (\<lambda>address account memo fee. Inr (demo_tx ''SetBlackList'' address)),
      serializeRemoveBlackList =
        (\<lambda>address account memo fee. Inr (demo_tx ''RemoveBlackList'' address)),
      serializeManageIssuer = (\<lambda>address account memo fee. Inr (demo_tx ''ManageIssuer'' address)),
      serializeIssueSet = (\<lambda>address amount token memo issuer fee. Inr (demo_tx ''IssueSet'' address)),
      serializeSignerList =
        (\<lambda>address signerQuorum fee signerEntries. Inr (demo_tx ''SignerListSet'' address)),
      serializeSetAccount = (\<lambda>address disable fee. Inr (demo_tx ''AccountSet'' address)),
      serialize721Payment =
        (\<lambda>account receiver tokenId fee memo. Inr (demo_tx ''TransferToken'' account)),
      serialize721Delete = (\<lambda>account tokenId fee. Inr (demo_tx ''TokenDel'' account)),
      serializeTokenIssue =
        (\<lambda>account publisher amount token flag fee. Inr (demo_tx ''TokenIssue'' account)),
      serialize721Publish =
        (\<lambda>account receiver token tokenId fee tokenInfos. Inr (demo_tx ''TransferToken'' account))\<rparr>"

section \<open>Lemmas: numbers\<close>

lemma round_half_even_of_int [simp]: "round_half_even (of_int i) = i"
  by (simp add: round_half_even_def)

lemma exp2_pos: "0 < exp2 e"
  by (simp add: exp2_def)

lemma binade_of_int: "1 \<le> j \<Longrightarrow> binade (of_int j) = bitlen j - 1"
  by (simp add: binade_def)

lemma safe_integer_scaled:
  assumes "1 \<le> j" and "j \<le> 2 ^ 53"
  shows "bitlen j - 1 \<le> 53 \<and> 0 \<le> bitlen j - 1 \<and>
         (\<exists>i. (of_int j :: rat) / exp2 (bitlen j - 1 - 52) = of_int i)"
proof -
  let ?e = "bitlen j - 1"
  have pos: "0 < j" using assms(1) by simp
  from bitlen_bounds[OF pos] have lo: "2 ^ nat ?e \<le> j" by simp
  have "bitlen j \<noteq> 0" using pos by (simp add: bitlen_eq_zero_iff)
  with bitlen_nonneg[of j] have e0: "0 \<le> ?e" by linarith
  have "(2::int) ^ nat ?e \<le> 2 ^ 53" using lo assms(2) by simp
  then have "nat ?e \<le> 53" by (rule power_le_imp_le_exp[rotated]) simp
  then have e53: "?e \<le> 53" by simp
  show ?thesis
  proof (cases "?e \<le> 52")
    case True
    then have "exp2 (?e - 52) = 1 / 2 ^ nat (52 - ?e)"
      by (cases "?e = 52") (simp_all add: exp2_def)
    then have "(of_int j :: rat) / exp2 (?e - 52) = of_int (j * 2 ^ nat (52 - ?e))" by simp
    then show ?thesis using e53 e0 by blast
  next
    case False
    then have e: "?e = 53" using e53 by simp
    then have "j = 2 ^ 53" using lo assms(2) by simp
    moreover have "exp2 (?e - 52) = 2" using e by (simp add: exp2_def)
    ultimately have "(of_int j :: rat) / exp2 (?e - 52) = of_int (2 ^ 52)" by simp
    then show ?thesis using e53 e0 by blast
  qed
qed

text \<open>The integers up to \<open>2^53\<close> in absolute value are doubles.\<close>

lemma binary64_of_int:
  assumes "\<bar>k\<bar> \<le> 2 ^ 53"
  shows "binary64 (of_int k) = Finite (of_int k)"
proof (cases "k = 0")
  case True
  then show ?thesis by (simp add: binary64_def)
next
  case False
  let ?j = "\<bar>k\<bar>"
  let ?e = "bitlen ?j - 1"
  have j: "1 \<le> ?j" "?j \<le> 2 ^ 53" using False assms by simp_all
  from safe_integer_scaled[OF j] obtain i where
    e: "?e \<le> 53" "0 \<le> ?e" and i: "(of_int ?j :: rat) / exp2 (?e - 52) = of_int i" by blast
  have a: "\<bar>of_int k :: rat\<bar> = of_int ?j" by simp
  have b: "binade (of_int ?j) = ?e" using j(1) by (rule binade_of_int)
  have m: "max ?e (- 1022) = ?e" using e(2) by simp
  have scaled: "(of_int i :: rat) * exp2 (?e - 52) = of_int ?j"
    using i exp2_pos[of "?e - 52"] by (simp add: field_simps)
  have "binary64 (of_int k) = Finite (if (of_int k :: rat) < 0 then - of_int ?j else of_int ?j)"
    using False e(1) unfolding binary64_def a Let_def b m i round_half_even_of_int scaled
    by simp
  then show ?thesis by (simp add: abs_if)
qed

lemma minus_one_safe:
  assumes "0 \<le> n" and "n \<le> 2 ^ 53"
  shows "minus_one (Finite (of_int n)) = Finite (of_int (n - 1))"
proof -
  have "\<bar>n - 1\<bar> \<le> 2 ^ 53" using assms by simp
  from binary64_of_int[OF this] show ?thesis by simp
qed

lemma minus_one_zero:
  "binary64 (- 1) = Finite (- 1)"
  "minus_one (Finite 0) = Finite (- 1)"
  using binary64_of_int[of "- 1"] by simp_all

lemma less_zero_of_int [simp]: "less_zero (Finite (of_int m)) \<longleftrightarrow> m < 0"
  by simp

lemma round_half_even_nonneg: "0 \<le> q \<Longrightarrow> 0 \<le> round_half_even q"
  by (auto simp: round_half_even_def Let_def)

lemma binary64_nonneg: "0 \<le> x \<Longrightarrow> \<not> less_zero (binary64 x)"
proof -
  assume x: "0 \<le> x"
  have "0 \<le> (of_int (round_half_even (\<bar>x\<bar> / exp2 e)) :: rat) * exp2 e" for e
    using round_half_even_nonneg[of "\<bar>x\<bar> / exp2 e"] exp2_pos[of e]
    by (simp add: less_imp_le)
  then show ?thesis using x by (auto simp: binary64_def Let_def not_less)
qed

lemma still_budget: "1 \<le> q \<Longrightarrow> \<not> less_zero (minus_one (Finite q))"
  using binary64_nonneg[of "q - 1"] by simp

text \<open>From \<open>2^53 + 4\<close> on there are doubles that \<open>retry - 1\<close> gives back unchanged.\<close>

lemma stalled_counters:
  "minus_one (Finite 9007199254740996) = Finite 9007199254740996"
  "minus_one (Finite 18014398509481984) = Finite 18014398509481984"
  "binary64 9007199254740996 = Finite 9007199254740996"
  "binary64 18014398509481984 = Finite 18014398509481984"
  by code_simp+

section \<open>Lemmas: the store, the signer, the resolver\<close>

lemma record_event_simps [simp]:
  "trace (record_event e w) = trace w @ [e]"
  "store (record_event e w) = store w"
  "accounts (record_event e w) = accounts w"
  by (simp_all add: record_event_def)

lemma set_field_simps [simp]:
  "trace (set_field a p v w) = trace w"
  "accounts (set_field a p v w) = accounts w"
  "length (store (set_field a p v w)) = length (store w)"
  by (simp_all add: set_field_def)

lemma objects_kept_refl [simp]: "objects_kept w w"
  by (simp add: objects_kept_def)

lemma objects_kept_length: "objects_kept w w' \<Longrightarrow> length (store w) \<le> length (store w')"
proof -
  assume "objects_kept w w'"
  then have "length (take (length (store w)) (store w')) = length (store w)"
    by (simp add: objects_kept_def)
  then show ?thesis by simp
qed

lemma objects_kept_trans: "objects_kept w w1 \<Longrightarrow> objects_kept w1 w2 \<Longrightarrow> objects_kept w w2"
proof -
  assume a: "objects_kept w w1" and b: "objects_kept w1 w2"
  have le: "length (store w) \<le> length (store w1)" using a by (rule objects_kept_length)
  have "take (length (store w)) (store w2) = take (length (store w)) (take (length (store w1)) (store w2))"
    using le by (simp add: min_def)
  also have "\<dots> = take (length (store w)) (store w1)" using b by (simp add: objects_kept_def)
  also have "\<dots> = store w" using a by (simp add: objects_kept_def)
  finally show ?thesis by (simp add: objects_kept_def)
qed

lemma objects_kept_deref: "objects_kept w w' \<Longrightarrow> a < length (store w) \<Longrightarrow> deref w' a = deref w a"
proof -
  assume k: "objects_kept w w'" and a: "a < length (store w)"
  have "store w ! a = take (length (store w)) (store w') ! a" using k by (simp add: objects_kept_def)
  also have "\<dots> = store w' ! a" using a by simp
  finally show ?thesis using a objects_kept_length[OF k] by (simp add: deref_def)
qed

lemma objects_kept_record_event [simp]: "objects_kept w (record_event e w)"
  by (simp add: objects_kept_def)

lemma objects_kept_set_field: "length (store w) \<le> a \<Longrightarrow> objects_kept w w1 \<Longrightarrow> objects_kept w (set_field a p v w1)"
  by (simp add: objects_kept_def set_field_def)

lemma Object_assign_new_props:
  "Object_assign_new tx w = (a, w') \<Longrightarrow>
     a = length (store w) \<and> trace w' = trace w \<and> accounts w' = accounts w \<and>
     length (store w') = Suc (length (store w)) \<and> objects_kept w w' \<and>
     store w' ! a = (case deref w tx of None \<Rightarrow> [] | Some fs \<Rightarrow> fs)"
  by (auto simp: Object_assign_new_def objects_kept_def)

lemma Wallet_sign_frame:
  assumes "Wallet_sign L a secret w = (x, w')"
  shows "trace w' = trace w \<and> accounts w' = accounts w \<and> objects_kept w w'"
  using assms
  by (auto simp: Wallet_sign_def Let_def Object_assign_new_def objects_kept_def set_field_def
      split: sum.splits prod.splits)

lemma Wallet_sign_result:
  assumes "deref w a = Some fs"
  shows "fst (Wallet_sign L a secret w) = sign_fields L fs secret"
proof -
  have a: "a < length (store w)" and fs: "store w ! a = fs"
    using assms by (simp_all add: deref_def split: if_splits)
  show ?thesis
    using a fs
    by (simp add: sign_fields_def Wallet_sign_def Let_def Object_assign_new_def set_field_def deref_def
        split: sum.split)
qed

lemma Wallet_sign_succeeds:
  assumes "signer_never_fails L secret"
  shows "\<exists>signed w'. Wallet_sign L a secret w = (Inr signed, w')"
proof -
  obtain k where k: "new_wallet L secret = Inr k" and sg: "\<And>h. \<exists>s. signTx k h = Inr s"
    and fj: "\<And>fs. \<exists>b. from_json L fs = Inr b"
    using assms unfolding signer_never_fails_def by blast
  obtain cp w1 where cp: "Object_assign_new a w = (cp, w1)" by (cases "Object_assign_new a w")
  define w2 where "w2 = set_field cp ''SigningPubKey'' (JStr (getPublicKey k)) w1"
  obtain b where b: "from_json L (store w2 ! cp) = Inr b" using fj by blast
  define h where "h = (if isEd25519 k then toUpperCase (toString16 (transactionSig L)) @ to_hex b
                       else hash_with b (transactionSig L))"
  obtain s where s: "signTx k h = Inr s" using sg by blast
  define w3 where "w3 = set_field cp ''TxnSignature'' (JStr s) w2"
  obtain sb where sb: "from_json L (store w3 ! cp) = Inr sb" using fj by blast
  have "Wallet_sign L a secret w = (Inr \<lparr>hash = h, blob = to_hex sb\<rparr>, w3)"
    using k cp b s sb unfolding Wallet_sign_def w2_def[symmetric] h_def[symmetric] w3_def[symmetric] Let_def
    by (simp add: w2_def[symmetric] h_def[symmetric] w3_def[symmetric])
  then show ?thesis by blast
qed

lemma getNode_props:
  assumes "getNode E T w = (node, w0)"
  shows "store w0 = store w" and "accounts w0 = accounts w" and "trace w0 = trace w @ [MathRandom]"
  using assms by (auto simp: getNode_def Let_def)

lemma swtcSequence_get_cached:
  assumes "accounts w a = Some v"
  shows "swtcSequence_get f a node w = (Inr v, record_event (SequenceGet a node) w)"
  using assms by (simp add: swtcSequence_get_def Let_def)

lemma swtcSequence_get_absent:
  assumes "accounts w a = None"
  shows "swtcSequence_get (Transaction_fetchSequence E) a node w =
           (case fetchSequence_reply E (trace w @ [SequenceGet a node]) node a of
              Inl e \<Rightarrow> (Inl e, record_event (FetchSequence node a) (record_event (SequenceGet a node) w))
            | Inr v \<Rightarrow> (Inr v, (record_event (FetchSequence node a) (record_event (SequenceGet a node) w))
                                 \<lparr>accounts := (accounts w)(a \<mapsto> v)\<rparr>))"
  using assms
  by (simp add: swtcSequence_get_def Let_def Transaction_fetchSequence_def fetchSequence_def split: sum.split)

lemma swtcSequence_get_props:
  assumes "swtcSequence_get (Transaction_fetchSequence E) a node w = (x, w')"
  shows "store w' = store w"
    and "trace w' = trace w @ SequenceGet a node # (case accounts w a of None \<Rightarrow> [FetchSequence node a] | Some v \<Rightarrow> [])"
    and "\<And>s. x = Inr s \<Longrightarrow> accounts w' = (accounts w)(a \<mapsto> s)"
    and "\<And>e. x = Inl e \<Longrightarrow> accounts w' = accounts w"
proof -
  show "store w' = store w"
  proof (cases "accounts w a")
    case None
    with assms show ?thesis by (auto simp: swtcSequence_get_absent split: sum.splits)
  next
    case (Some v)
    with assms show ?thesis by (auto simp: swtcSequence_get_cached)
  qed
  show "trace w' = trace w @ SequenceGet a node # (case accounts w a of None \<Rightarrow> [FetchSequence node a] | Some v \<Rightarrow> [])"
  proof (cases "accounts w a")
    case None
    with assms show ?thesis by (auto simp: swtcSequence_get_absent split: sum.splits)
  next
    case (Some v)
    with assms show ?thesis by (auto simp: swtcSequence_get_cached)
  qed
  show "\<And>s. x = Inr s \<Longrightarrow> accounts w' = (accounts w)(a \<mapsto> s)"
  proof (cases "accounts w a")
    case None
    fix s assume "x = Inr s"
    with None assms show "accounts w' = (accounts w)(a \<mapsto> s)" by (auto simp: swtcSequence_get_absent split: sum.splits)
  next
    case (Some v)
    fix s assume "x = Inr s"
    with Some assms show "accounts w' = (accounts w)(a \<mapsto> s)" by (auto simp: swtcSequence_get_cached)
  qed
  show "\<And>e. x = Inl e \<Longrightarrow> accounts w' = accounts w"
  proof (cases "accounts w a")
    case None
    fix e assume "x = Inl e"
    with None assms show "accounts w' = accounts w" by (auto simp: swtcSequence_get_absent split: sum.splits)
  next
    case (Some v)
    fix e assume "x = Inl e"
    with Some assms show "accounts w' = accounts w" by (auto simp: swtcSequence_get_cached)
  qed
qed

section \<open>Lemmas: one pass of the loop\<close>

lemma submit_sign_cases:
  assumes "submit_sign E T secret tx node w = (x, w')"
  obtains (invalid) "deref w tx = None" "x = Inl TypeError"
      "w' = snd (Object_assign_new tx w)"
  | (unresolved) fs e where "deref w tx = Some fs"
      "swtcSequence_get (Transaction_fetchSequence E) (field fs ''Account'') node
         (snd (Object_assign_new tx w)) = (Inl e, w')"
      "x = Inl e"
  | (resolved) fs s w2 where "deref w tx = Some fs"
      "swtcSequence_get (Transaction_fetchSequence E) (field fs ''Account'') node
         (snd (Object_assign_new tx w)) = (Inr s, w2)"
      "Wallet_sign (wallet T) (length (store w)) secret
         (set_field (length (store w)) ''Sequence'' (JNum (int s)) w2) = (x, w')"
  using assms
  by (auto simp: submit_sign_def Object_assign_new_def Let_def split: option.splits sum.splits prod.splits)

lemma objects_kept_assign [simp]: "objects_kept w (snd (Object_assign_new tx w))"
  by (simp add: Object_assign_new_def objects_kept_def)

lemma assign_simps [simp]:
  "trace (snd (Object_assign_new tx w)) = trace w"
  "accounts (snd (Object_assign_new tx w)) = accounts w"
  "store (snd (Object_assign_new tx w)) = store w @ [case deref w tx of None \<Rightarrow> [] | Some fs \<Rightarrow> fs]"
  by (simp_all add: Object_assign_new_def)

lemma submit_sign_frame:
  assumes "submit_sign E T secret tx node w = (x, w')"
  shows "objects_kept w w'"
    and "\<exists>evs. trace w' = trace w @ evs \<and> list_all (\<lambda>e. uses_node node e \<and> \<not> is_submission e) evs"
proof -
  let ?w1 = "snd (Object_assign_new tx w)"
  from assms show "objects_kept w w'"
  proof (cases rule: submit_sign_cases)
    case invalid
    then show ?thesis by simp
  next
    case (unresolved fs e)
    from swtcSequence_get_props(1)[OF unresolved(2)] have "store w' = store ?w1" .
    then show ?thesis by (simp add: objects_kept_def)
  next
    case (resolved fs s w2)
    from swtcSequence_get_props(1)[OF resolved(2)] have st: "store w2 = store ?w1" .
    have "objects_kept w w2" using st by (simp add: objects_kept_def)
    then have "objects_kept w (set_field (length (store w)) ''Sequence'' (JNum (int s)) w2)"
      by (simp add: objects_kept_set_field)
    moreover have "objects_kept (set_field (length (store w)) ''Sequence'' (JNum (int s)) w2) w'"
      using Wallet_sign_frame[OF resolved(3)] by simp
    ultimately show ?thesis by (rule objects_kept_trans)
  qed
  from assms show "\<exists>evs. trace w' = trace w @ evs \<and> list_all (\<lambda>e. uses_node node e \<and> \<not> is_submission e) evs"
  proof (cases rule: submit_sign_cases)
    case invalid
    then show ?thesis by simp
  next
    case (unresolved fs e)
    from swtcSequence_get_props(2)[OF unresolved(2)] show ?thesis
      by (auto split: option.splits)
  next
    case (resolved fs s w2)
    from swtcSequence_get_props(2)[OF resolved(2)] Wallet_sign_frame[OF resolved(3)] show ?thesis
      by (auto split: option.splits)
  qed
qed

lemma submit_sign_valid:
  assumes "submit_sign E T secret tx node w = (Inr signed, w')" and "deref w tx = Some fs"
  shows "\<exists>s. fst (swtcSequence_get (Transaction_fetchSequence E) (field fs ''Account'') node
                  (snd (Object_assign_new tx w))) = Inr s \<and>
             accounts w' = (accounts w)(field fs ''Account'' \<mapsto> s) \<and>
             sign_fields (wallet T) (AList.update ''Sequence'' (JNum (int s)) fs) secret = Inr signed"
    and "trace w' = trace w @ resolution_events (field fs ''Account'') node w"
proof -
  let ?w1 = "snd (Object_assign_new tx w)"
  have d1: "deref w tx = Some fs" using assms(2) .
  from assms(1) show "\<exists>s. fst (swtcSequence_get (Transaction_fetchSequence E) (field fs ''Account'') node ?w1) = Inr s \<and>
             accounts w' = (accounts w)(field fs ''Account'' \<mapsto> s) \<and>
             sign_fields (wallet T) (AList.update ''Sequence'' (JNum (int s)) fs) secret = Inr signed"
  proof (cases rule: submit_sign_cases)
    case invalid
    then show ?thesis by simp
  next
    case (unresolved fs' e)
    then show ?thesis by simp
  next
    case (resolved fs' s w2)
    have fs': "fs' = fs" using resolved(1) d1 by simp
    let ?w3 = "set_field (length (store w)) ''Sequence'' (JNum (int s)) w2"
    have st: "store w2 = store ?w1" using swtcSequence_get_props(1)[OF resolved(2)] .
    have "deref ?w3 (length (store w)) = Some (AList.update ''Sequence'' (JNum (int s)) fs)"
      using st assms(2) by (simp add: deref_def set_field_def)
    from Wallet_sign_result[OF this, of "wallet T" secret] resolved(3)
    have "sign_fields (wallet T) (AList.update ''Sequence'' (JNum (int s)) fs) secret = Inr signed"
      by simp
    moreover have "accounts w' = (accounts w)(field fs ''Account'' \<mapsto> s)"
      using swtcSequence_get_props(3)[OF resolved(2)] Wallet_sign_frame[OF resolved(3)] fs' by simp
    moreover have "fst (swtcSequence_get (Transaction_fetchSequence E) (field fs ''Account'') node ?w1) = Inr s"
      using resolved(2) fs' by simp
    ultimately show ?thesis by blast
  qed
  from assms(1) show "trace w' = trace w @ resolution_events (field fs ''Account'') node w"
  proof (cases rule: submit_sign_cases)
    case invalid
    then show ?thesis by simp
  next
    case (unresolved fs' e)
    then show ?thesis by simp
  next
    case (resolved fs' s w2)
    have fs': "fs' = fs" using resolved(1) d1 by simp
    from swtcSequence_get_props(2)[OF resolved(2)[unfolded fs']] Wallet_sign_frame[OF resolved(3)]
    show ?thesis by (simp add: resolution_events_def)
  qed
qed

lemma submit_sign_succeeds:
  assumes "fetch_never_fails E" and "signer_never_fails (wallet T) secret" and "deref w tx = Some fs"
  shows "\<exists>signed w'. submit_sign E T secret tx node w = (Inr signed, w')"
proof -
  let ?w1 = "snd (Object_assign_new tx w)"
  let ?a = "field fs ''Account''"
  have d1: "deref w tx = Some fs" using assms(3) .
  obtain x w2 where g: "swtcSequence_get (Transaction_fetchSequence E) ?a node ?w1 = (x, w2)"
    by (cases "swtcSequence_get (Transaction_fetchSequence E) ?a node ?w1")
  have "\<exists>s. x = Inr s"
  proof (cases "accounts ?w1 ?a")
    case None
    obtain v where v: "fetchSequence_reply E (trace ?w1 @ [SequenceGet ?a node]) node ?a = Inr v"
      using assms(1) unfolding fetch_never_fails_def by blast
    have "swtcSequence_get (Transaction_fetchSequence E) ?a node ?w1 =
            (Inr v, (record_event (FetchSequence node ?a) (record_event (SequenceGet ?a node) ?w1))
                                 \<lparr>accounts := (accounts ?w1)(?a \<mapsto> v)\<rparr>)"
      unfolding swtcSequence_get_absent[OF None] v by simp
    with g show ?thesis by auto
  next
    case (Some v)
    with g show ?thesis by (auto simp: swtcSequence_get_cached)
  qed
  then obtain s where s: "x = Inr s" ..
  obtain signed w' where "Wallet_sign (wallet T) (length (store w)) secret
       (set_field (length (store w)) ''Sequence'' (JNum (int s)) w2) = (Inr signed, w')"
    using Wallet_sign_succeeds[OF assms(2)] by blast
  then have "submit_sign E T secret tx node w = (Inr signed, w')"
    using d1 g s by (simp add: submit_sign_def Object_assign_new_def Let_def)
  then show ?thesis by blast
qed

lemma classify_success:
  assumes "res_engine_result res = JStr ''tesSUCCESS''"
  shows "submit_classify E tx res h r w =
           (case res_tx_json_hash res of Inl e \<Rightarrow> (Inl e, w) | Inr h' \<Rightarrow> (Inr (h', r), w))"
  using assms by (simp add: submit_classify_def)

lemma classify_fatal:
  assumes "res_engine_result res \<noteq> JStr ''tesSUCCESS''"
    and "res_engine_result res \<noteq> JStr ''terPRE_SEQ''"
    and "res_engine_result res \<noteq> JStr ''tefPAST_SEQ''"
  shows "submit_classify E tx res h r w = (Inl (new_Error (JSON_stringify E res)), w)"
  using assms by (simp add: submit_classify_def)

lemma classify_conflict:
  assumes "res_engine_result res = JStr ''terPRE_SEQ'' \<or> res_engine_result res = JStr ''tefPAST_SEQ''"
    and "deref w tx = Some fs"
  shows "submit_classify E tx res h r w =
           (if less_zero (minus_one r) then Inl (new_Error (JSON_stringify E res))
            else Inr (h, minus_one r),
            swtcSequence_reset (field fs ''Account'') w)"
  using assms by (auto simp: submit_classify_def Let_def)

lemma swtcSequence_reset_simps [simp]:
  "trace (swtcSequence_reset a w) = trace w @ [SequenceReset a]"
  "store (swtcSequence_reset a w) = store w"
  "accounts (swtcSequence_reset a w) = (accounts w)(a := None)"
  by (simp_all add: swtcSequence_reset_def Let_def)

lemma swtcSequence_rise_simps [simp]:
  "trace (swtcSequence_rise a w) = trace w @ [SequenceRise a]"
  "store (swtcSequence_rise a w) = store w"
  "accounts (swtcSequence_rise a w) =
     (case accounts w a of None \<Rightarrow> accounts w | Some v \<Rightarrow> (accounts w)(a \<mapsto> v + 1))"
  by (simp_all add: swtcSequence_rise_def Let_def split: option.split)

lemma classify_frame:
  assumes "submit_classify E tx res h r w = (x, w')"
  shows "store w' = store w"
    and "\<exists>evs. trace w' = trace w @ evs \<and> list_all (\<lambda>e. uses_node node e \<and> \<not> is_submission e) evs"
  using assms
  by (auto simp: submit_classify_def Let_def split: if_splits sum.splits option.splits)

lemma classify_next:
  assumes "submit_classify E tx res h r w = (Inr (h1, r1), w')"
  shows "(res_engine_result res = JStr ''tesSUCCESS'' \<and> res_tx_json_hash res = Inr h1 \<and> r1 = r \<and> w' = w) \<or>
         (h1 = h \<and> r1 = minus_one r \<and> \<not> less_zero r1 \<and>
          res_engine_result res \<noteq> JStr ''tesSUCCESS'')"
  using assms
  by (auto simp: submit_classify_def Let_def split: if_splits sum.splits option.splits)

lemma submit_body_cases:
  assumes "submit_body E T secret tx node h r w = (x, w')"
  obtains (unsigned) e where "submit_sign E T secret tx node w = (Inl e, w')" "x = Inl e"
  | (rejected) signed w1 e where "submit_sign E T secret tx node w = (Inr signed, w1)"
      "submitTransaction_reply E (trace w1) node (blob signed) = Inl e" "x = Inl e"
      "w' = record_event (SubmitTransaction node (blob signed)) w1"
  | (answered) signed w1 res where "submit_sign E T secret tx node w = (Inr signed, w1)"
      "submitTransaction_reply E (trace w1) node (blob signed) = Inr res"
      "submit_classify E tx res h r (record_event (SubmitTransaction node (blob signed)) w1) = (x, w')"
  using assms
  by (auto simp: submit_body_def submitTransaction_def split: sum.splits prod.splits)

lemma submit_body_answered:
  assumes "submit_sign E T secret tx node w = (Inr signed, w1)"
    and "submitTransaction_reply E (trace w1) node (blob signed) = Inr res"
  shows "submit_body E T secret tx node h r w =
           submit_classify E tx res h r (record_event (SubmitTransaction node (blob signed)) w1)"
  using assms by (simp add: submit_body_def submitTransaction_def)

section \<open>Lemmas: the loop\<close>

lemma submit_while_done:
  "truthy h \<Longrightarrow> submit_while E T secret tx node h r w = Some (Inr h, w)"
  by (subst submit_while.simps) simp

lemma submit_while_throw:
  "\<not> truthy h \<Longrightarrow> submit_body E T secret tx node h r w = (Inl e, w1) \<Longrightarrow>
     submit_while E T secret tx node h r w = Some (Inl e, w1)"
  by (subst submit_while.simps) simp

lemma submit_while_next:
  "\<not> truthy h \<Longrightarrow> submit_body E T secret tx node h r w = (Inr (h1, r1), w1) \<Longrightarrow>
     submit_while E T secret tx node h r w = submit_while E T secret tx node h1 r1 w1"
  by (subst submit_while.simps) simp

lemma submissions_append [simp]: "submissions (xs @ ys) = submissions xs + submissions ys"
  by (simp add: submissions_def)

lemma submissions_simps [simp]:
  "submissions [] = 0"
  "submissions (e # es) = (if is_submission e then 1 else 0) + submissions es"
  by (simp_all add: submissions_def)

lemma submissions_none: "list_all (\<lambda>e. P e \<and> \<not> is_submission e) evs \<Longrightarrow> submissions evs = 0"
  by (induction evs) auto

lemma events_since_append [simp]: "trace w' = trace w @ evs \<Longrightarrow> events_since w w' = evs"
  by (simp add: events_since_def)

lemma submit_body_frame:
  assumes "submit_body E T secret tx node h r w = (x, w')"
  shows "objects_kept w w'"
    and "\<exists>evs. trace w' = trace w @ evs \<and> list_all (uses_node node) evs \<and> submissions evs \<le> 1"
proof -
  from assms show "objects_kept w w'"
  proof (cases rule: submit_body_cases)
    case (unsigned e)
    then show ?thesis using submit_sign_frame(1) by blast
  next
    case (rejected signed w1 e)
    have "objects_kept w w1" using submit_sign_frame(1)[OF rejected(1)] .
    then show ?thesis using rejected(4) by (simp add: objects_kept_def)
  next
    case (answered signed w1 res)
    have "objects_kept w w1" using submit_sign_frame(1)[OF answered(1)] .
    then show ?thesis using classify_frame(1)[OF answered(3)] by (simp add: objects_kept_def)
  qed
  from assms show "\<exists>evs. trace w' = trace w @ evs \<and> list_all (uses_node node) evs \<and> submissions evs \<le> 1"
  proof (cases rule: submit_body_cases)
    case (unsigned e)
    from submit_sign_frame(2)[OF unsigned(1)] obtain evs where
      "trace w' = trace w @ evs" "list_all (\<lambda>e. uses_node node e \<and> \<not> is_submission e) evs" by blast
    then have "trace w' = trace w @ evs \<and> list_all (uses_node node) evs \<and> submissions evs \<le> 1"
      using submissions_none[of "uses_node node" evs] by (simp add: list_all_iff)
    then show ?thesis by blast
  next
    case (rejected signed w1 e)
    from submit_sign_frame(2)[OF rejected(1)] obtain evs where
      evs: "trace w1 = trace w @ evs" "list_all (\<lambda>e. uses_node node e \<and> \<not> is_submission e) evs" by blast
    have "trace w' = trace w @ (evs @ [SubmitTransaction node (blob signed)]) \<and>
          list_all (uses_node node) (evs @ [SubmitTransaction node (blob signed)]) \<and>
          submissions (evs @ [SubmitTransaction node (blob signed)]) \<le> 1"
      using evs rejected(4) submissions_none[of "uses_node node" evs] by (simp add: list_all_iff)
    then show ?thesis by blast
  next
    case (answered signed w1 res)
    from submit_sign_frame(2)[OF answered(1)] obtain evs where
      evs: "trace w1 = trace w @ evs" "list_all (\<lambda>e. uses_node node e \<and> \<not> is_submission e) evs" by blast
    from classify_frame(2)[OF answered(3), of node] obtain evs2 where
      evs2: "trace w' = trace (record_event (SubmitTransaction node (blob signed)) w1) @ evs2"
        "list_all (\<lambda>e. uses_node node e \<and> \<not> is_submission e) evs2" by blast
    have "trace w' = trace w @ (evs @ SubmitTransaction node (blob signed) # evs2) \<and>
          list_all (uses_node node) (evs @ SubmitTransaction node (blob signed) # evs2) \<and>
          submissions (evs @ SubmitTransaction node (blob signed) # evs2) \<le> 1"
      using evs evs2 submissions_none[of "uses_node node" evs] submissions_none[of "uses_node node" evs2]
      by (auto simp: list_all_iff)
    then show ?thesis by blast
  qed
qed

lemma scripted_fetch_never_fails: "fetch_never_fails (scripted rs)"
  by (simp add: fetch_never_fails_def scripted_def)

lemma demo_chain_never_fails: "signer_never_fails demo_chain secret"
  by (simp add: signer_never_fails_def demo_chain_def)

lemma demo_world_deref: "deref demo_world 0 = Some [(''Account'', JStr ''jA''), (''Fee'', JNum 10)]"
  by (simp add: deref_def demo_world_def)

lemma getNode_deref: "getNode E T w = (node, w0) \<Longrightarrow> deref w0 a = deref w a"
  by (auto simp: getNode_def Let_def deref_def)

lemma submit_first_pass:
  assumes "getNode E T w = (node, w0)"
  shows "submit E T secret tx w = submit_while E T secret tx node JUndefined (retry T) w0"
  using assms by (simp add: submit_def)

lemma attempts_Some: "trace w' = trace w @ evs \<Longrightarrow> attempts w (Some (x, w')) = Some (submissions evs)"
  by (simp add: attempts_def)

lemma submit_sign_trace:
  assumes "submit_sign E T secret tx node w = (x, w')"
  obtains evs where "trace w' = trace w @ evs" "submissions evs = 0" "list_all (uses_node node) evs"
proof -
  from submit_sign_frame(2)[OF assms] obtain evs where
    e: "trace w' = trace w @ evs" "list_all (\<lambda>e. uses_node node e \<and> \<not> is_submission e) evs" by blast
  have "submissions evs = 0" using e(2) by (rule submissions_none)
  moreover have "list_all (uses_node node) evs" using e(2) by (simp add: list_all_iff)
  ultimately show thesis using e(1) that by blast
qed

lemma loop_terminates:
  assumes good: "\<And>t n b res h. submitTransaction_reply E t n b = Inr res \<Longrightarrow>
                   res_engine_result res = JStr ''tesSUCCESS'' \<Longrightarrow>
                   res_tx_json_hash res = Inr h \<Longrightarrow> truthy h"
    and "\<not> truthy h0" and "0 \<le> k" and "k \<le> 2 ^ 53"
  shows "\<exists>x w' evs. submit_while E T secret tx node h0 (Finite (of_int k)) w = Some (x, w') \<and>
                     trace w' = trace w @ evs \<and> submissions evs \<le> nat k + 1"
  using assms(2-4)
proof (induction "nat k" arbitrary: k w rule: less_induct)
  case less
  let ?r = "Finite (of_int k)"
  obtain x w1 where body: "submit_body E T secret tx node h0 ?r w = (x, w1)"
    by (cases "submit_body E T secret tx node h0 ?r w")
  from submit_body_frame(2)[OF body] obtain evs1 where
    evs1: "trace w1 = trace w @ evs1" "submissions evs1 \<le> 1" by blast
  show ?case
  proof (cases x)
    case (Inl e)
    then have "submit_while E T secret tx node h0 ?r w = Some (Inl e, w1)"
      using body less.prems(1) by (simp add: submit_while_throw)
    then show ?thesis using evs1 by auto
  next
    case (Inr p)
    obtain h1 r1 where p: "p = (h1, r1)" by (cases p)
    have next_pass: "submit_while E T secret tx node h0 ?r w = submit_while E T secret tx node h1 r1 w1"
      using body Inr p less.prems(1) by (simp add: submit_while_next)
    from body show ?thesis
    proof (cases rule: submit_body_cases)
      case (unsigned e)
      then show ?thesis using Inr by simp
    next
      case (rejected signed w0 e)
      then show ?thesis using Inr by simp
    next
      case (answered signed w0 res)
      from classify_next[OF answered(3)[unfolded Inr p]]
      consider (success) "res_engine_result res = JStr ''tesSUCCESS''" "res_tx_json_hash res = Inr h1"
        | (conflict) "h1 = h0" "r1 = minus_one ?r" "\<not> less_zero r1"
        by blast
      then show ?thesis
      proof cases
        case success
        have "truthy h1" using good[OF answered(2) success] .
        then have "submit_while E T secret tx node h1 r1 w1 = Some (Inr h1, w1)"
          by (rule submit_while_done)
        then show ?thesis using next_pass evs1 by auto
      next
        case conflict
        have r1: "r1 = Finite (of_int (k - 1))"
          unfolding conflict(2) using less.prems(2,3) by (rule minus_one_safe)
        then have k1: "0 \<le> k - 1" using conflict(3) by simp
        then have "nat (k - 1) < nat k" by simp
        moreover have "k - 1 \<le> 2 ^ 53" using less.prems(3) by simp
        ultimately obtain x' w' evs where
          rest: "submit_while E T secret tx node h0 (Finite (of_int (k - 1))) w1 = Some (x', w')"
            "trace w' = trace w1 @ evs" "submissions evs \<le> nat (k - 1) + 1"
          using less.hyps[of "k - 1" w1] less.prems(1) k1 by blast
        have "trace w' = trace w @ (evs1 @ evs)" using rest(2) evs1(1) by simp
        moreover have "submissions (evs1 @ evs) \<le> nat k + 1"
          using rest(3) evs1(2) k1 by simp
        moreover have "submit_while E T secret tx node h0 ?r w = Some (x', w')"
          using next_pass rest(1) conflict(1) r1 by simp
        ultimately show ?thesis by (intro exI conjI)
      qed
    qed
  qed
qed

lemma resolutions_append [simp]: "resolutions (xs @ ys) = resolutions xs + resolutions ys"
  by (simp add: resolutions_def)

lemma resolutions_simps [simp]:
  "resolutions [] = 0"
  "resolutions (e # es) = (if is_resolution e then 1 else 0) + resolutions es"
  by (simp_all add: resolutions_def)

lemma fetches_append [simp]: "fetches (xs @ ys) = fetches xs + fetches ys"
  by (simp add: fetches_def)

lemma fetches_simps [simp]:
  "fetches [] = 0"
  "fetches (e # es) = (if is_fetch e then 1 else 0) + fetches es"
  by (simp_all add: fetches_def)

lemma resolution_events_counts [simp]:
  "submissions (resolution_events a node w) = 0"
  "resolutions (resolution_events a node w) = 1"
  "fetches (resolution_events a node w) = (if accounts w a = None then 1 else 0)"
  by (simp_all add: resolution_events_def split: option.split)

lemma objects_kept_deref_Some:
  assumes "objects_kept w w'" and "deref w a = Some fs"
  shows "deref w' a = Some fs"
proof -
  have "a < length (store w)" using assms(2) by (simp add: deref_def split: if_splits)
  from objects_kept_deref[OF assms(1) this] have "deref w' a = deref w a" .
  then show ?thesis unfolding assms(2) .
qed

lemma deref_record_event [simp]: "deref (record_event e w) a = deref w a"
  by (simp add: deref_def)

lemma deref_reset [simp]: "deref (swtcSequence_reset b w) a = deref w a"
  by (simp add: deref_def)

lemma deref_rise [simp]: "deref (swtcSequence_rise b w) a = deref w a"
  by (simp add: deref_def)

lemma conflict_pass:
  assumes "submit_sign E T secret tx node w = (Inr signed, w1)"
    and "submitTransaction_reply E (trace w1) node (blob signed) = Inr res"
    and "res_engine_result res = JStr ''terPRE_SEQ'' \<or> res_engine_result res = JStr ''tefPAST_SEQ''"
    and "deref w tx = Some fs"
  shows "submit_body E T secret tx node h r w =
           (if less_zero (minus_one r) then Inl (new_Error (JSON_stringify E res))
            else Inr (h, minus_one r),
            swtcSequence_reset (field fs ''Account'')
              (record_event (SubmitTransaction node (blob signed)) w1))"
    and "trace w1 = trace w @ resolution_events (field fs ''Account'') node w"
    and "objects_kept w w1"
proof -
  show k: "objects_kept w w1" using submit_sign_frame(1)[OF assms(1)] .
  have "deref w1 tx = Some fs"
    using k assms(4) by (rule objects_kept_deref_Some)
  then have "deref (record_event (SubmitTransaction node (blob signed)) w1) tx = Some fs"
    by simp
  from classify_conflict[OF assms(3) this]
  show "submit_body E T secret tx node h r w =
           (if less_zero (minus_one r) then Inl (new_Error (JSON_stringify E res))
            else Inr (h, minus_one r),
            swtcSequence_reset (field fs ''Account'')
              (record_event (SubmitTransaction node (blob signed)) w1))"
    unfolding submit_body_answered[OF assms(1,2)] .
  show "trace w1 = trace w @ resolution_events (field fs ''Account'') node w"
    using submit_sign_valid(2)[OF assms(1,4)] .
qed

lemma scripted_reply:
  assumes "submitTransaction_reply (scripted rs) t n b = Inr res"
  shows "res \<in> set rs"
  using assms by (auto simp: scripted_def split: if_splits)

lemma Transaction_new_simps [simp]:
  "retry (Transaction_new L ns r) = (case r of None \<Rightarrow> Finite 0 | Some n \<Rightarrow> n)"
  "wallet (Transaction_new L ns r) = L"
  "nodes (Transaction_new L ns r) = ns"
  by (simp_all add: Transaction_new_def)

text \<open>
  A \<open>tesSUCCESS\<close> response with an empty hash leaves \<open>hash\<close> falsy, so the loop makes
  another pass without touching the budget. At a node that answers every submission so,
  no pass ends the loop.
\<close>

lemma falsy_success_pass:
  assumes "fetch_never_fails E" and "signer_never_fails (wallet T) secret"
    and "\<And>t n b. \<exists>res h. submitTransaction_reply E t n b = Inr res \<and>
           res_engine_result res = JStr ''tesSUCCESS'' \<and> res_tx_json_hash res = Inr h \<and> \<not> truthy h"
    and "deref w tx = Some fs"
  shows "\<exists>h1 w1. submit_body E T secret tx node h r w = (Inr (h1, r), w1) \<and> \<not> truthy h1 \<and>
           deref w1 tx = Some fs"
proof -
  obtain signed v1 where sg: "submit_sign E T secret tx node w = (Inr signed, v1)"
    using submit_sign_succeeds[OF assms(1,2,4)] by blast
  obtain res h1 where rep: "submitTransaction_reply E (trace v1) node (blob signed) = Inr res"
    and suc: "res_engine_result res = JStr ''tesSUCCESS''" "res_tx_json_hash res = Inr h1" "\<not> truthy h1"
    using assms(3) by blast
  let ?v2 = "record_event (SubmitTransaction node (blob signed)) v1"
  have "submit_body E T secret tx node h r w = (Inr (h1, r), ?v2)"
    unfolding submit_body_answered[OF sg rep] using suc(1,2) by (simp add: classify_success)
  moreover have "deref ?v2 tx = Some fs"
    using objects_kept_deref_Some[OF submit_sign_frame(1)[OF sg] assms(4)] by simp
  ultimately show ?thesis using suc(3) by blast
qed

lemma never_returns:
  assumes f: "fetch_never_fails E" and s: "signer_never_fails (wallet T) secret"
    and c: "\<And>t n b. \<exists>res h. submitTransaction_reply E t n b = Inr res \<and>
           res_engine_result res = JStr ''tesSUCCESS'' \<and> res_tx_json_hash res = Inr h \<and> \<not> truthy h"
    and d: "deref w tx = Some fs" and h: "\<not> truthy h0"
  shows "submit_while E T secret tx node h0 r w = None"
proof (rule ccontr)
  assume "submit_while E T secret tx node h0 r w \<noteq> None"
  then obtain y where y: "submit_while E T secret tx node h0 r w = Some y" by blast
  have "E = E \<and> T = T \<and> secret = secret \<and> tx = tx \<and> deref w tx = Some fs \<and> \<not> truthy h0 \<longrightarrow> False"
  proof (rule submit_while.raw_induct[where P = "\<lambda>E' T' secret' tx' node' h' r' w' y'.
          E' = E \<and> T' = T \<and> secret' = secret \<and> tx' = tx \<and> deref w' tx = Some fs \<and> \<not> truthy h'
            \<longrightarrow> False", OF _ y])
    fix g E' T' secret' tx' node' h' r' w' y'
    assume IH: "\<And>E' T' secret' tx' node' h' r' w' y'. g E' T' secret' tx' node' h' r' w' = Some y' \<Longrightarrow>
            E' = E \<and> T' = T \<and> secret' = secret \<and> tx' = tx \<and> deref w' tx = Some fs \<and> \<not> truthy h'
            \<longrightarrow> False"
      and step: "(if \<not> truthy h'
        then case submit_body E' T' secret' tx' node' h' r' w' of
             (Inl e, w1) \<Rightarrow> Some (Inl e, w1)
             | (Inr (hash1, retry1), w1) \<Rightarrow> g E' T' secret' tx' node' hash1 retry1 w1
        else Some (Inr h', w')) = Some y'"
    show "E' = E \<and> T' = T \<and> secret' = secret \<and> tx' = tx \<and> deref w' tx = Some fs \<and> \<not> truthy h'
            \<longrightarrow> False"
    proof
      assume a: "E' = E \<and> T' = T \<and> secret' = secret \<and> tx' = tx \<and> deref w' tx = Some fs \<and> \<not> truthy h'"
      then have d': "deref w' tx = Some fs" and nt: "\<not> truthy h'" by simp_all
      from falsy_success_pass[OF f s c d', of node' h' r'] obtain h1 w1 where
        b: "submit_body E T secret tx node' h' r' w' = (Inr (h1, r'), w1)"
        and n1: "\<not> truthy h1" and d1: "deref w1 tx = Some fs" by blast
      from step a b have "g E T secret tx node' h1 r' w1 = Some y'" by simp
      from IH[OF this] n1 d1 show False by simp
    qed
  qed
  then show False using d h by simp
qed

lemma stubborn_never_returns:
  "submit (stubborn (response ''tesSUCCESS'' [])) (Transaction_new demo_chain [''n1''] (Some (Finite 0)))
     ''s'' 0 demo_world = None"
proof -
  let ?E = "stubborn (response ''tesSUCCESS'' [])"
  let ?T = "Transaction_new demo_chain [''n1''] (Some (Finite 0))"
  obtain node w0 where n: "getNode ?E ?T demo_world = (node, w0)" by (cases "getNode ?E ?T demo_world")
  have f: "fetch_never_fails ?E" by (simp add: fetch_never_fails_def stubborn_def)
  have s: "signer_never_fails (wallet ?T) ''s''" by (simp add: demo_chain_never_fails)
  have c: "\<And>t n b. \<exists>res h. submitTransaction_reply ?E t n b = Inr res \<and>
           res_engine_result res = JStr ''tesSUCCESS'' \<and> res_tx_json_hash res = Inr h \<and> \<not> truthy h"
    by (simp add: stubborn_def res_engine_result_def res_tx_json_hash_def response_def
        opt_prop_def get_prop_def)
  have d: "deref w0 0 = Some [(''Account'', JStr ''jA''), (''Fee'', JNum 10)]"
    using getNode_deref[OF n] demo_world_deref by simp
  have "\<not> truthy JUndefined" by simp
  from never_returns[OF f s c d this] show ?thesis by (simp add: submit_first_pass[OF n])
qed

lemma exhaustion_bounded:
  assumes f: "fetch_never_fails E" and s: "signer_never_fails (wallet T) secret"
    and c: "\<And>t n b. K0 \<le> submissions t \<Longrightarrow> submissions t < K \<Longrightarrow>
              \<exists>res. submitTransaction_reply E t n b = Inr res \<and>
              (res_engine_result res = JStr ''terPRE_SEQ'' \<or> res_engine_result res = JStr ''tefPAST_SEQ'') \<and>
              P res"
    and "\<not> truthy h0" and "0 \<le> k" and "k \<le> 2 ^ 53" and "deref w tx = Some fs"
    and "K0 \<le> submissions (trace w)" and "submissions (trace w) + nat k + 1 \<le> K"
  shows "\<exists>res w' evs. submit_while E T secret tx node h0 (Finite (of_int k)) w =
                          Some (Inl (new_Error (JSON_stringify E res)), w') \<and>
           P res \<and>
           trace w' = trace w @ evs \<and> submissions evs = nat k + 1 \<and> resolutions evs = nat k + 1 \<and>
           accounts w' (field fs ''Account'') = None"
  using assms(4-9)
proof (induction "nat k" arbitrary: k w rule: less_induct)
  case less
  let ?a = "field fs ''Account''"
  let ?r = "Finite (of_int k)"
  obtain signed w1 where sg: "submit_sign E T secret tx node w = (Inr signed, w1)"
    using submit_sign_succeeds[OF f s less.prems(4)] by blast
  have t1: "trace w1 = trace w @ resolution_events ?a node w"
    using submit_sign_valid(2)[OF sg less.prems(4)] .
  have "K0 \<le> submissions (trace w1)" "submissions (trace w1) < K"
    using t1 less.prems(5,6) by simp_all
  from c[OF this] obtain res where res: "submitTransaction_reply E (trace w1) node (blob signed) = Inr res"
    and cf: "res_engine_result res = JStr ''terPRE_SEQ'' \<or> res_engine_result res = JStr ''tefPAST_SEQ''"
    and pr: "P res"
    by blast
  let ?w2 = "swtcSequence_reset ?a (record_event (SubmitTransaction node (blob signed)) w1)"
  let ?evs1 = "resolution_events ?a node w @ [SubmitTransaction node (blob signed), SequenceReset ?a]"
  note pass = conflict_pass[OF sg res cf less.prems(4)]
  have step: "minus_one ?r = Finite (of_int (k - 1))"
    using less.prems(2,3) by (rule minus_one_safe)
  have tr: "trace ?w2 = trace w @ ?evs1" using pass(2) by simp
  have cnt: "submissions ?evs1 = 1" "resolutions ?evs1 = 1" by simp_all
  show ?case
  proof (cases "k - 1 < 0")
    case True
    then have r0: "k = 0" using less.prems(2) by simp
    have "submit_while E T secret tx node h0 ?r w = Some (Inl (new_Error (JSON_stringify E res)), ?w2)"
      using pass(1)[of h0 ?r] True less.prems(1) unfolding step by (simp add: submit_while_throw)
    moreover note pr tr
    moreover have "submissions ?evs1 = nat k + 1" "resolutions ?evs1 = nat k + 1"
      using cnt r0 by simp_all
    moreover have "accounts ?w2 ?a = None" by simp
    ultimately show ?thesis by (intro exI conjI)
  next
    case False
    then have body: "submit_body E T secret tx node h0 ?r w = (Inr (h0, Finite (of_int (k - 1))), ?w2)"
      using pass(1)[of h0 ?r] unfolding step by simp
    have nxt: "submit_while E T secret tx node h0 ?r w =
               submit_while E T secret tx node h0 (Finite (of_int (k - 1))) ?w2"
      using body less.prems(1) by (rule submit_while_next[rotated])
    have d: "deref ?w2 tx = Some fs"
      using objects_kept_deref_Some[OF pass(3) less.prems(4)] by simp
    have "nat (k - 1) < nat k" "0 \<le> k - 1" "k - 1 \<le> 2 ^ 53" using False less.prems(3) by simp_all
    moreover have "K0 \<le> submissions (trace ?w2)" using tr less.prems(5) by simp
    moreover have "submissions (trace ?w2) + nat (k - 1) + 1 \<le> K"
      using tr less.prems(6) False by (simp add: nat_diff_distrib)
    ultimately have "\<exists>res' w' evs. submit_while E T secret tx node h0 (Finite (of_int (k - 1))) ?w2 =
               Some (Inl (new_Error (JSON_stringify E res')), w') \<and>
        P res' \<and>
        trace w' = trace ?w2 @ evs \<and> submissions evs = nat (k - 1) + 1 \<and> resolutions evs = nat (k - 1) + 1 \<and>
        accounts w' ?a = None"
      using less.hyps[of "k - 1" ?w2] less.prems(1) d by blast
    then obtain res' w' evs where
      rest: "submit_while E T secret tx node h0 (Finite (of_int (k - 1))) ?w2 =
               Some (Inl (new_Error (JSON_stringify E res')), w')"
        "P res'"
        "trace w' = trace ?w2 @ evs" "submissions evs = nat (k - 1) + 1" "resolutions evs = nat (k - 1) + 1"
        "accounts w' ?a = None"
      by blast
    have "submit_while E T secret tx node h0 ?r w = Some (Inl (new_Error (JSON_stringify E res')), w')"
      using nxt rest(1) by simp
    moreover note rest(2)
    moreover have "trace w' = trace w @ (?evs1 @ evs)" using rest(3) tr by simp
    moreover have "submissions (?evs1 @ evs) = nat k + 1" "resolutions (?evs1 @ evs) = nat k + 1"
      using rest(4,5) False by simp_all
    moreover note rest(6)
    ultimately show ?thesis by (intro exI conjI)
  qed
qed

text \<open>
  A counter that \<open>retry - 1\<close> gives back unchanged, and that is not below zero, never
  stops the loop: at a node that answers every submission with a sequence conflict, no
  pass throws.
\<close>

lemma stalled_pass:
  assumes "fetch_never_fails E" and "signer_never_fails (wallet T) secret"
    and "\<And>t n b. \<exists>res. submitTransaction_reply E t n b = Inr res \<and>
           (res_engine_result res = JStr ''terPRE_SEQ'' \<or> res_engine_result res = JStr ''tefPAST_SEQ'')"
    and "deref w tx = Some fs" and "minus_one r = r" and "\<not> less_zero r"
  shows "\<exists>w1. submit_body E T secret tx node h r w = (Inr (h, r), w1) \<and> deref w1 tx = Some fs"
proof -
  obtain signed v1 where sg: "submit_sign E T secret tx node w = (Inr signed, v1)"
    using submit_sign_succeeds[OF assms(1,2,4)] by blast
  obtain res where rep: "submitTransaction_reply E (trace v1) node (blob signed) = Inr res"
    and cf: "res_engine_result res = JStr ''terPRE_SEQ'' \<or> res_engine_result res = JStr ''tefPAST_SEQ''"
    using assms(3) by blast
  let ?v2 = "swtcSequence_reset (field fs ''Account'')
               (record_event (SubmitTransaction node (blob signed)) v1)"
  note pass = conflict_pass[OF sg rep cf assms(4)]
  have "submit_body E T secret tx node h r w = (Inr (h, r), ?v2)"
    using pass(1)[of h r] assms(5,6) by simp
  moreover have "deref ?v2 tx = Some fs"
    using objects_kept_deref_Some[OF pass(3) assms(4)] by simp
  ultimately show ?thesis by blast
qed

lemma stalled_never_returns:
  assumes f: "fetch_never_fails E" and s: "signer_never_fails (wallet T) secret"
    and c: "\<And>t n b. \<exists>res. submitTransaction_reply E t n b = Inr res \<and>
           (res_engine_result res = JStr ''terPRE_SEQ'' \<or> res_engine_result res = JStr ''tefPAST_SEQ'')"
    and d: "deref w tx = Some fs" and h: "\<not> truthy h0"
    and st: "minus_one r = r" and nz: "\<not> less_zero r"
  shows "submit_while E T secret tx node h0 r w = None"
proof (rule ccontr)
  assume "submit_while E T secret tx node h0 r w \<noteq> None"
  then obtain y where y: "submit_while E T secret tx node h0 r w = Some y" by blast
  have "E = E \<and> T = T \<and> secret = secret \<and> tx = tx \<and> r = r \<and> deref w tx = Some fs \<and> \<not> truthy h0
          \<longrightarrow> False"
  proof (rule submit_while.raw_induct[where P = "\<lambda>E' T' secret' tx' node' h' r' w' y'.
          E' = E \<and> T' = T \<and> secret' = secret \<and> tx' = tx \<and> r' = r \<and> deref w' tx = Some fs \<and>
          \<not> truthy h' \<longrightarrow> False", OF _ y])
    fix g E' T' secret' tx' node' h' r' w' y'
    assume IH: "\<And>E' T' secret' tx' node' h' r' w' y'. g E' T' secret' tx' node' h' r' w' = Some y' \<Longrightarrow>
            E' = E \<and> T' = T \<and> secret' = secret \<and> tx' = tx \<and> r' = r \<and> deref w' tx = Some fs \<and>
            \<not> truthy h' \<longrightarrow> False"
      and step: "(if \<not> truthy h'
        then case submit_body E' T' secret' tx' node' h' r' w' of
             (Inl e, w1) \<Rightarrow> Some (Inl e, w1)
             | (Inr (hash1, retry1), w1) \<Rightarrow> g E' T' secret' tx' node' hash1 retry1 w1
        else Some (Inr h', w')) = Some y'"
    show "E' = E \<and> T' = T \<and> secret' = secret \<and> tx' = tx \<and> r' = r \<and> deref w' tx = Some fs \<and>
            \<not> truthy h' \<longrightarrow> False"
    proof
      assume a: "E' = E \<and> T' = T \<and> secret' = secret \<and> tx' = tx \<and> r' = r \<and> deref w' tx = Some fs \<and>
                 \<not> truthy h'"
      then have d': "deref w' tx = Some fs" and nt: "\<not> truthy h'" by simp_all
      from stalled_pass[OF f s c d' st nz, of node' h'] obtain w1 where
        b: "submit_body E T secret tx node' h' r w' = (Inr (h', r), w1)"
        and d1: "deref w1 tx = Some fs" by blast
      from step a b have "g E T secret tx node' h' r w1 = Some y'" by simp
      from IH[OF this] nt d1 show False by simp
    qed
  qed
  then show False using d h by simp
qed

lemma stubborn_stalls:
  assumes "minus_one r = r" and "\<not> less_zero r"
    and "e = ''terPRE_SEQ'' \<or> e = ''tefPAST_SEQ''"
  shows "submit (stubborn (response e ''X'')) (Transaction_new demo_chain [''n1''] (Some r))
           ''s'' 0 demo_world = None"
proof -
  let ?E = "stubborn (response e ''X'')"
  let ?T = "Transaction_new demo_chain [''n1''] (Some r)"
  obtain node w0 where n: "getNode ?E ?T demo_world = (node, w0)" by (cases "getNode ?E ?T demo_world")
  have f: "fetch_never_fails ?E" by (simp add: fetch_never_fails_def stubborn_def)
  have s: "signer_never_fails (wallet ?T) ''s''" by (simp add: demo_chain_never_fails)
  have c: "\<And>t n b. \<exists>res. submitTransaction_reply ?E t n b = Inr res \<and>
           (res_engine_result res = JStr ''terPRE_SEQ'' \<or> res_engine_result res = JStr ''tefPAST_SEQ'')"
    using assms(3)
    by (simp add: stubborn_def res_engine_result_def response_def opt_prop_def)
  have d: "deref w0 0 = Some [(''Account'', JStr ''jA''), (''Fee'', JNum 10)]"
    using getNode_deref[OF n] demo_world_deref by simp
  have "\<not> truthy JUndefined" by simp
  from stalled_never_returns[OF f s c d this assms(1,2)] show ?thesis
    by (simp add: submit_first_pass[OF n])
qed

lemma scripted_in_script:
  assumes "submissions t < length rs"
  shows "submitTransaction_reply (scripted rs) t n b = Inr (rs ! submissions t)"
  using assms by (simp add: scripted_def)

lemma scripted_stringify [simp]: "JSON_stringify (scripted rs) (response e h) = Some ''json''"
  by (simp add: scripted_def response_def)

lemma response_engine_result [simp]: "res_engine_result (response e h) = JStr e"
  by (simp add: res_engine_result_def response_def opt_prop_def)

lemma response_hash [simp]: "res_tx_json_hash (response e h) = Inr (JStr h)"
  by (simp add: res_tx_json_hash_def response_def get_prop_def)

section \<open>Lemmas: the facade and the scripted node\<close>

lemma invoke_eq:
  "invoke E X T c w =
     (case build X T c of
        Inl e \<Rightarrow> Some (Inl e, swtcSequence_reset (JStr (acting_account c)) w)
      | Inr built \<Rightarrow>
          (case submit E T (signing_secret c) (length (store w)) (snd (new_object built w)) of
             None \<Rightarrow> None
           | Some (Inr h, w2) \<Rightarrow> Some (Inr h, swtcSequence_rise (JStr (acting_account c)) w2)
           | Some (Inl e, w2) \<Rightarrow> Some (Inl e, swtcSequence_reset (JStr (acting_account c)) w2)))"
  by (cases c)
    (simp_all add: createOrder_def cancelOrder_def transfer_def setBrokerage_def addBlackList_def
      removeBlackList_def setManageIssuer_def issueSet_def setSignerList_def setAccount_def
      transfer721_def delete721_def setTokenIssue_def publish721_def new_object_def
      split: sum.split option.split prod.split)

lemma success_pass:
  assumes "\<not> truthy h0"
    and "submit_sign E T secret tx node v = (Inr signed, v1)"
    and "submitTransaction_reply E (trace v1) node (blob signed) = Inr res"
    and "res_engine_result res = JStr ''tesSUCCESS''"
    and "res_tx_json_hash res = Inr h"
    and "truthy h"
  shows "submit_while E T secret tx node h0 r v =
           Some (Inr h, record_event (SubmitTransaction node (blob signed)) v1)"
proof -
  let ?v2 = "record_event (SubmitTransaction node (blob signed)) v1"
  have "submit_body E T secret tx node h0 r v = (Inr (h, r), ?v2)"
    unfolding submit_body_answered[OF assms(2,3)] using assms(4,5) by (simp add: classify_success)
  then have "submit_while E T secret tx node h0 r v = submit_while E T secret tx node h r ?v2"
    using assms(1) by (simp add: submit_while_next)
  then show ?thesis using assms(6) by (simp add: submit_while_done)
qed

lemma loop_frame:
  assumes "submit_while E T secret tx node h r w = Some y"
  shows "objects_kept w (snd y) \<and>
         (\<exists>evs. trace (snd y) = trace w @ evs \<and> list_all (uses_node node) evs)"
proof (rule submit_while.raw_induct[where P = "\<lambda>E T secret tx node h r w y.
          objects_kept w (snd y) \<and>
          (\<exists>evs. trace (snd y) = trace w @ evs \<and> list_all (uses_node node) evs)", OF _ assms])
  fix f E T secret tx node h r w y
  assume IH: "\<And>E T secret tx node h r w y. f E T secret tx node h r w = Some y \<Longrightarrow>
          objects_kept w (snd y) \<and>
          (\<exists>evs. trace (snd y) = trace w @ evs \<and> list_all (uses_node node) evs)"
    and step: "(if \<not> truthy h
      then case submit_body E T secret tx node h r w of
           (Inl e, w1) \<Rightarrow> Some (Inl e, w1)
           | (Inr (hash1, retry1), w1) \<Rightarrow> f E T secret tx node hash1 retry1 w1
      else Some (Inr h, w)) = Some y"
  show "objects_kept w (snd y) \<and>
          (\<exists>evs. trace (snd y) = trace w @ evs \<and> list_all (uses_node node) evs)"
  proof (cases "truthy h")
    case True
    with step have "y = (Inr h, w)" by simp
    then show ?thesis by simp
  next
    case False
    obtain xb w1 where body: "submit_body E T secret tx node h r w = (xb, w1)"
      by (cases "submit_body E T secret tx node h r w")
    from submit_body_frame[OF body] obtain evs1 where
      k1: "objects_kept w w1" and e1: "trace w1 = trace w @ evs1" "list_all (uses_node node) evs1"
      by blast
    show ?thesis
    proof (cases xb)
      case (Inl e)
      with step False body have "y = (Inl e, w1)" by simp
      then show ?thesis using k1 e1 by simp
    next
      case (Inr p)
      obtain h1 r1 where p: "p = (h1, r1)" by (cases p)
      with step False body Inr have "f E T secret tx node h1 r1 w1 = Some y" by simp
      from IH[OF this] obtain evs2 where
        k2: "objects_kept w1 (snd y)" and e2: "trace (snd y) = trace w1 @ evs2" "list_all (uses_node node) evs2"
        by blast
      have "objects_kept w (snd y)" using k1 k2 by (rule objects_kept_trans)
      moreover have "trace (snd y) = trace w @ (evs1 @ evs2)" using e1(1) e2(1) by simp
      moreover have "list_all (uses_node node) (evs1 @ evs2)" using e1(2) e2(2) by simp
      ultimately show ?thesis by blast
    qed
  qed
qed

lemma submit_frame:
  assumes "submit E T secret tx w = Some (x, w')"
  shows "objects_kept w w'"
    and "\<exists>evs. trace w' = trace w @ MathRandom # evs \<and> list_all (uses_node (fst (getNode E T w))) evs"
proof -
  obtain node w0 where n: "getNode E T w = (node, w0)" by (cases "getNode E T w")
  have run: "submit_while E T secret tx node JUndefined (retry T) w0 = Some (x, w')"
    using assms by (simp add: submit_first_pass[OF n])
  from loop_frame[OF run] obtain evs where
    k: "objects_kept w0 w'" and e: "trace w' = trace w0 @ evs" "list_all (uses_node node) evs"
    by auto
  have "objects_kept w w0" using getNode_props(1)[OF n] by (simp add: objects_kept_def)
  then show "objects_kept w w'" using k by (rule objects_kept_trans)
  have "trace w' = trace w @ MathRandom # evs" using e(1) getNode_props(3)[OF n] by simp
  then show "\<exists>evs. trace w' = trace w @ MathRandom # evs \<and> list_all (uses_node (fst (getNode E T w))) evs"
    using e(2) n by auto
qed

lemma submit_returns:
  assumes "\<And>t n b res h. submitTransaction_reply E t n b = Inr res \<Longrightarrow>
             res_engine_result res = JStr ''tesSUCCESS'' \<Longrightarrow>
             res_tx_json_hash res = Inr h \<Longrightarrow> truthy h"
    and "retry T = Finite (of_int k)" and "0 \<le> k" and "k \<le> 2 ^ 53"
  shows "\<exists>x w'. submit E T secret tx w = Some (x, w')"
proof -
  obtain node w0 where n: "getNode E T w = (node, w0)" by (cases "getNode E T w")
  have "\<exists>x w' evs. submit_while E T secret tx node JUndefined (Finite (of_int k)) w0 = Some (x, w') \<and>
                     trace w' = trace w0 @ evs \<and> submissions evs \<le> nat k + 1"
  proof (rule loop_terminates)
    show "\<not> truthy JUndefined" by simp
  next
    fix t n b res h
    assume "submitTransaction_reply E t n b = Inr res" "res_engine_result res = JStr ''tesSUCCESS''"
      "res_tx_json_hash res = Inr h"
    then show "truthy h" by (rule assms(1))
  qed (rule assms(3), rule assms(4))
  then show ?thesis by (auto simp: submit_first_pass[OF n] assms(2))
qed

lemma scripted_returns:
  assumes "\<And>res h. res \<in> set rs \<Longrightarrow> res_engine_result res = JStr ''tesSUCCESS'' \<Longrightarrow>
             res_tx_json_hash res = Inr h \<Longrightarrow> truthy h"
    and "retry T = Finite (of_int k)" and "0 \<le> k" and "k \<le> 2 ^ 53"
  shows "\<exists>x w'. submit (scripted rs) T secret tx w = Some (x, w')"
proof (rule submit_returns)
  fix t n b res h
  assume "submitTransaction_reply (scripted rs) t n b = Inr res"
  then have "res \<in> set rs" by (rule scripted_reply)
  then show "res_engine_result res = JStr ''tesSUCCESS'' \<Longrightarrow> res_tx_json_hash res = Inr h \<Longrightarrow> truthy h"
    by (rule assms(1))
qed (rule assms(2), rule assms(3), rule assms(4))

text \<open>The budgets of the examples: 1 and 3 as counters.\<close>

lemma demo_budgets:
  "retry (Transaction_new L ns (Some (Finite 1))) = Finite (of_int 1)"
  "retry (Transaction_new L ns (Some (Finite 3))) = Finite (of_int 3)"
  "(0::int) \<le> 1" "(1::int) \<le> 2 ^ 53" "(0::int) \<le> 3" "(3::int) \<le> 2 ^ 53"
  by simp_all

lemma submit_sign_copy:
  assumes "submit_sign E T secret tx node w = (Inr signed, w')" and "deref w tx = Some fs"
    and "fst (swtcSequence_get (Transaction_fetchSequence E) (field fs ''Account'') node
                  (snd (Object_assign_new tx w))) = Inr s"
  shows "deref w' (length (store w)) = Some (AList.update ''Sequence'' (JNum (int s)) fs)"
proof -
  let ?w1 = "snd (Object_assign_new tx w)"
  have d1: "deref w tx = Some fs" using assms(2) .
  from assms(1) show ?thesis
  proof (cases rule: submit_sign_cases)
    case invalid
    then show ?thesis by simp
  next
    case (unresolved fs' e)
    then show ?thesis by simp
  next
    case (resolved fs' s' w2)
    have fs': "fs' = fs" using resolved(1) d1 by simp
    have s': "s' = s" using resolved(2) assms(3) fs' by simp
    let ?w3 = "set_field (length (store w)) ''Sequence'' (JNum (int s)) w2"
    have st: "store w2 = store ?w1" using swtcSequence_get_props(1)[OF resolved(2)] .
    have "deref ?w3 (length (store w)) = Some (AList.update ''Sequence'' (JNum (int s)) fs)"
      using st assms(2) by (simp add: deref_def set_field_def)
    moreover have "objects_kept ?w3 w'" using Wallet_sign_frame[OF resolved(3)] s' by simp
    ultimately show ?thesis by (rule objects_kept_deref_Some[rotated])
  qed
qed

lemma no_submission_in:
  assumes "list_all (\<lambda>e. uses_node node e \<and> \<not> is_submission e) evs"
  shows "SubmitTransaction n b \<notin> set evs"
  using assms by (auto simp: list_all_iff)

lemma pass_submission:
  assumes "submit_body E T secret tx node h r v = (xb, v1)"
    and "deref v tx = Some fs"
    and "SubmitTransaction n b \<in> set (events_since v v1)"
  shows "\<exists>s signed.
           fst (swtcSequence_get (Transaction_fetchSequence E) (field fs ''Account'') node
                  (snd (Object_assign_new tx v))) = Inr s \<and>
           deref v1 (length (store v)) = Some (AList.update ''Sequence'' (JNum (int s)) fs) \<and>
           sign_fields (wallet T) (AList.update ''Sequence'' (JNum (int s)) fs) secret = Inr signed \<and>
           b = blob signed \<and> n = node"
  using assms(1)
proof (cases rule: submit_body_cases)
  case (unsigned e)
  from submit_sign_frame(2)[OF unsigned(1)] obtain evs where
    "trace v1 = trace v @ evs" "list_all (\<lambda>e. uses_node node e \<and> \<not> is_submission e) evs" by blast
  then have "SubmitTransaction n b \<notin> set (events_since v v1)"
    using no_submission_in[of node evs n b] by simp
  then show ?thesis using assms(3) by simp
next
  case (rejected signed w1 e)
  from submit_sign_frame(2)[OF rejected(1)] obtain evs where
    evs: "trace w1 = trace v @ evs" "list_all (\<lambda>e. uses_node node e \<and> \<not> is_submission e) evs" by blast
  have "trace v1 = trace v @ (evs @ [SubmitTransaction node (blob signed)])"
    using evs(1) rejected(4) by simp
  then have "events_since v v1 = evs @ [SubmitTransaction node (blob signed)]"
    by (rule events_since_append)
  then have nb: "b = blob signed \<and> n = node"
    using assms(3) no_submission_in[OF evs(2), of n b] by auto
  from submit_sign_valid(1)[OF rejected(1) assms(2)] obtain s where
    s: "fst (swtcSequence_get (Transaction_fetchSequence E) (field fs ''Account'') node
                  (snd (Object_assign_new tx v))) = Inr s"
      "sign_fields (wallet T) (AList.update ''Sequence'' (JNum (int s)) fs) secret = Inr signed"
    by blast
  have "deref w1 (length (store v)) = Some (AList.update ''Sequence'' (JNum (int s)) fs)"
    using rejected(1) assms(2) s(1) by (rule submit_sign_copy)
  then have "deref v1 (length (store v)) = Some (AList.update ''Sequence'' (JNum (int s)) fs)"
    using rejected(4) by simp
  with s nb show ?thesis by blast
next
  case (answered signed w1 res)
  from submit_sign_frame(2)[OF answered(1)] obtain evs where
    evs: "trace w1 = trace v @ evs" "list_all (\<lambda>e. uses_node node e \<and> \<not> is_submission e) evs" by blast
  have st: "store v1 = store (record_event (SubmitTransaction node (blob signed)) w1)"
    using classify_frame(1)[OF answered(3)] .
  from classify_frame(2)[OF answered(3), of node] obtain evs2 where
    evs2: "trace v1 = trace (record_event (SubmitTransaction node (blob signed)) w1) @ evs2"
      "list_all (\<lambda>e. uses_node node e \<and> \<not> is_submission e) evs2" by blast
  have "trace v1 = trace v @ (evs @ SubmitTransaction node (blob signed) # evs2)"
    using evs(1) evs2(1) by simp
  then have "events_since v v1 = evs @ SubmitTransaction node (blob signed) # evs2"
    by (rule events_since_append)
  then have nb: "b = blob signed \<and> n = node"
    using assms(3) no_submission_in[OF evs(2), of n b] no_submission_in[OF evs2(2), of n b] by auto
  from submit_sign_valid(1)[OF answered(1) assms(2)] obtain s where
    s: "fst (swtcSequence_get (Transaction_fetchSequence E) (field fs ''Account'') node
                  (snd (Object_assign_new tx v))) = Inr s"
      "sign_fields (wallet T) (AList.update ''Sequence'' (JNum (int s)) fs) secret = Inr signed"
    by blast
  have "deref w1 (length (store v)) = Some (AList.update ''Sequence'' (JNum (int s)) fs)"
    using answered(1) assms(2) s(1) by (rule submit_sign_copy)
  then have "deref v1 (length (store v)) = Some (AList.update ''Sequence'' (JNum (int s)) fs)"
    using st by (simp add: deref_def split: if_splits)
  with s nb show ?thesis by blast
qed

lemma submit_sign_resolution:
  assumes "deref w tx = Some fs"
  shows "trace (snd (submit_sign E T secret tx node w)) =
           trace w @ resolution_events (field fs ''Account'') node w"
proof -
  let ?w1 = "snd (Object_assign_new tx w)"
  have d1: "deref w tx = Some fs" using assms .
  obtain x w' where run: "submit_sign E T secret tx node w = (x, w')"
    by (cases "submit_sign E T secret tx node w")
  from run have "trace w' = trace w @ resolution_events (field fs ''Account'') node w"
  proof (cases rule: submit_sign_cases)
    case invalid
    then show ?thesis using d1 by simp
  next
    case (unresolved fs' e)
    have fs': "fs' = fs" using unresolved(1) d1 by simp
    from swtcSequence_get_props(2)[OF unresolved(2)[unfolded fs']]
    show ?thesis by (simp add: resolution_events_def)
  next
    case (resolved fs' s w2)
    have fs': "fs' = fs" using resolved(1) d1 by simp
    from swtcSequence_get_props(2)[OF resolved(2)[unfolded fs']] Wallet_sign_frame[OF resolved(3)]
    show ?thesis by (simp add: resolution_events_def)
  qed
  then show ?thesis using run by simp
qed

lemma retry_then_succeed:
  assumes f: "fetch_never_fails E" and s: "signer_never_fails (wallet T) secret"
    and d: "deref w tx = Some fs" and b: "retry T = Finite q" "1 \<le> q"
    and r1: "\<And>t n b. submissions t = submissions (trace w) \<Longrightarrow>
               \<exists>res. submitTransaction_reply E t n b = Inr res \<and> res_engine_result res = JStr ''terPRE_SEQ''"
    and r2: "\<And>t n b. submissions t = submissions (trace w) + 1 \<Longrightarrow>
               \<exists>res h. submitTransaction_reply E t n b = Inr res \<and>
                 res_engine_result res = JStr ''tesSUCCESS'' \<and> res_tx_json_hash res = Inr h \<and> truthy h"
  shows "\<exists>h w'. submit E T secret tx w = Some (Inr h, w') \<and> truthy h \<and>
           resolutions (events_since w w') = 2 \<and>
           fetches (events_since w w') = (if accounts w (field fs ''Account'') = None then 2 else 1)"
proof -
  let ?a = "field fs ''Account''"
  obtain node w0 where n: "getNode E T w = (node, w0)" by (cases "getNode E T w")
  have t0: "trace w0 = trace w @ [MathRandom]" using getNode_props(3)[OF n] .
  have a0: "accounts w0 = accounts w" using getNode_props(2)[OF n] .
  have d0: "deref w0 tx = Some fs" using getNode_deref[OF n] d by simp
  obtain signed1 v1 where sg1: "submit_sign E T secret tx node w0 = (Inr signed1, v1)"
    using submit_sign_succeeds[OF f s d0] by blast
  have t1: "trace v1 = trace w0 @ resolution_events ?a node w0"
    using submit_sign_valid(2)[OF sg1 d0] .
  have "submissions (trace v1) = submissions (trace w)" using t1 t0 by simp
  from r1[OF this] obtain res1 where
    rep1: "submitTransaction_reply E (trace v1) node (blob signed1) = Inr res1"
    and pre: "res_engine_result res1 = JStr ''terPRE_SEQ''" by blast
  let ?v3 = "swtcSequence_reset ?a (record_event (SubmitTransaction node (blob signed1)) v1)"
  have cf: "res_engine_result res1 = JStr ''terPRE_SEQ'' \<or> res_engine_result res1 = JStr ''tefPAST_SEQ''"
    using pre by simp
  note pass1 = conflict_pass[OF sg1 rep1 cf d0]
  have left: "\<not> less_zero (minus_one (retry T))"
    unfolding b(1) using b(2) by (rule still_budget)
  have body1: "submit_body E T secret tx node JUndefined (retry T) w0 =
                 (Inr (JUndefined, minus_one (retry T)), ?v3)"
    using pass1(1)[of JUndefined "retry T"] left by simp
  have step1: "submit_while E T secret tx node JUndefined (retry T) w0 =
               submit_while E T secret tx node JUndefined (minus_one (retry T)) ?v3"
    using body1 by (simp add: submit_while_next)
  have d3: "deref ?v3 tx = Some fs" using objects_kept_deref_Some[OF pass1(3) d0] by simp
  obtain signed2 v4 where sg2: "submit_sign E T secret tx node ?v3 = (Inr signed2, v4)"
    using submit_sign_succeeds[OF f s d3] by blast
  have t4: "trace v4 = trace ?v3 @ resolution_events ?a node ?v3"
    using submit_sign_valid(2)[OF sg2 d3] .
  have t3: "trace ?v3 = trace w @ (MathRandom # resolution_events ?a node w0 @
                                    [SubmitTransaction node (blob signed1), SequenceReset ?a])"
    using t1 t0 by simp
  have "submissions (trace v4) = submissions (trace w) + 1" using t4 t3 by simp
  from r2[OF this] obtain res2 h where
    rep2: "submitTransaction_reply E (trace v4) node (blob signed2) = Inr res2"
    and suc: "res_engine_result res2 = JStr ''tesSUCCESS''" "res_tx_json_hash res2 = Inr h" "truthy h"
    by blast
  let ?v5 = "record_event (SubmitTransaction node (blob signed2)) v4"
  have "\<not> truthy JUndefined" by simp
  from success_pass[OF this sg2 rep2 suc]
  have step2: "submit_while E T secret tx node JUndefined (minus_one (retry T)) ?v3 =
                 Some (Inr h, ?v5)" .
  have run: "submit E T secret tx w = Some (Inr h, ?v5)"
    using step1 step2 by (simp add: submit_first_pass[OF n])
  let ?evs = "MathRandom # resolution_events ?a node w0 @
                [SubmitTransaction node (blob signed1), SequenceReset ?a] @
                resolution_events ?a node ?v3 @ [SubmitTransaction node (blob signed2)]"
  have "trace ?v5 = trace w @ ?evs" using t4 t3 by simp
  then have ev: "events_since w ?v5 = ?evs" by (rule events_since_append)
  have "resolutions (events_since w ?v5) = 2" unfolding ev by simp
  moreover have "fetches (events_since w ?v5) = (if accounts w ?a = None then 2 else 1)"
    unfolding ev using a0 by simp
  ultimately show ?thesis using run suc(3) by blast
qed

lemma demo_fields_account [simp]:
  "field [(''Account'', JStr ''jA''), (''Fee'', JNum 10)] ''Account'' = JStr ''jA''"
  by (simp add: field_def)

lemma demo_build_brokerage:
  "build demo_builders T (SetBrokerage ''jP'' ''ps'' ''jFee'' (JNum 1) (JNum 1000) ''JJCC'' None) =
     Inr (demo_tx ''Brokerage'' ''jP'')"
  by (simp add: demo_builders_def)

lemma demo_build_order:
  "build demo_builders T (CreateOrder ''jA'' ''s'' ''1'' ''jjcc'' ''swt'' ''2'' (JStr ''buy'') ''jP'' None) =
     Inr (demo_tx ''OfferCreate'' ''jA'')"
  by (simp add: demo_builders_def)

lemma deref_new_object:
  "new_object built w = (tx, w1) \<Longrightarrow> deref w1 tx = Some built"
  by (auto simp: new_object_def deref_def)

lemma trace_new_object:
  "new_object built w = (tx, w1) \<Longrightarrow> trace w1 = trace w"
  by (auto simp: new_object_def)

section \<open>Lemmas: the states of the loop\<close>

lemma reaches_first:
  assumes "loop_reaches E T secret tx node s1 s2" and "s1 = (h1, r1, v1)"
    and "\<not> truthy h" and "submit_body E T secret tx node h r v = (Inr (h1, r1), v1)"
  shows "loop_reaches E T secret tx node (h, r, v) s2"
  using assms
proof (induction rule: loop_reaches.induct)
  case (entered s)
  have "loop_reaches E T secret tx node (h, r, v) (h, r, v)" by (rule loop_reaches.entered)
  then have "loop_reaches E T secret tx node (h, r, v) (h1, r1, v1)"
    using entered(2,3) by (rule loop_reaches.pass)
  then show ?case using entered(1) by simp
next
  case (pass s h' r' v' h2 r2 v2)
  have "loop_reaches E T secret tx node (h, r, v) (h', r', v')"
    using pass.IH pass.prems by simp
  then show ?case using pass.hyps(2,3) by (rule loop_reaches.pass)
qed

lemma reaches_run:
  assumes "loop_reaches E T secret tx node s s'"
  shows "(case s of (h0, r0, v0) \<Rightarrow> submit_while E T secret tx node h0 r0 v0) =
         (case s' of (h, r, v) \<Rightarrow> submit_while E T secret tx node h r v)"
  using assms
proof (induction rule: loop_reaches.induct)
  case (entered s)
  show ?case by simp
next
  case (pass s h r v h1 r1 v1)
  have "submit_while E T secret tx node h r v = submit_while E T secret tx node h1 r1 v1"
    using pass.hyps(2,3) by (rule submit_while_next)
  then show ?case using pass.IH by simp
qed

lemma reaches_kept:
  assumes "loop_reaches E T secret tx node s s'"
  shows "objects_kept (snd (snd s)) (snd (snd s'))"
  using assms
proof (induction rule: loop_reaches.induct)
  case (entered s)
  show ?case by simp
next
  case (pass s h r v h1 r1 v1)
  have "objects_kept v v1" using submit_body_frame(1)[OF pass.hyps(3)] .
  with pass.IH show ?case by (simp add: objects_kept_trans)
qed

lemma reaches_deref:
  assumes "loop_reaches E T secret tx node (h0, r0, v0) (h, r, v)" and "deref v0 tx = Some fs"
  shows "deref v tx = Some fs"
  using reaches_kept[OF assms(1)] assms(2) by (simp add: objects_kept_deref_Some)

lemma loop_submissions:
  assumes run: "submit_while E T secret tx node h0 r0 v0 = Some y"
    and d: "deref v0 tx = Some fs"
  shows "objects_kept v0 (snd y) \<and> (\<exists>evs. trace (snd y) = trace v0 @ evs) \<and>
         (\<forall>n b. SubmitTransaction n b \<in> set (events_since v0 (snd y)) \<longrightarrow>
            (\<exists>h r v xb v1 s signed.
               loop_reaches E T secret tx node (h0, r0, v0) (h, r, v) \<and> \<not> truthy h \<and>
               submit_body E T secret tx node h r v = (xb, v1) \<and>
               SubmitTransaction n b \<in> set (events_since v v1) \<and>
               length (store v0) \<le> length (store v) \<and>
               fst (swtcSequence_get (Transaction_fetchSequence E) (field fs ''Account'') node
                      (snd (Object_assign_new tx v))) = Inr s \<and>
               deref (snd y) (length (store v)) = Some (AList.update ''Sequence'' (JNum (int s)) fs) \<and>
               sign_fields (wallet T) (AList.update ''Sequence'' (JNum (int s)) fs) secret = Inr signed \<and>
               b = blob signed \<and> n = node))"
proof -
  let ?Q = "\<lambda>E T secret tx node h0 r0 v0 w' fs n b.
     \<exists>h r v xb v1 s signed.
        loop_reaches E T secret tx node (h0, r0, v0) (h, r, v) \<and> \<not> truthy h \<and>
        submit_body E T secret tx node h r v = (xb, v1) \<and>
        SubmitTransaction n b \<in> set (events_since v v1) \<and>
        length (store v0) \<le> length (store v) \<and>
        fst (swtcSequence_get (Transaction_fetchSequence E) (field fs ''Account'') node
               (snd (Object_assign_new tx v))) = Inr s \<and>
        deref w' (length (store v)) = Some (AList.update ''Sequence'' (JNum (int s)) fs) \<and>
        sign_fields (wallet T) (AList.update ''Sequence'' (JNum (int s)) fs) secret = Inr signed \<and>
        b = blob signed \<and> n = node"
  let ?P = "\<lambda>E T secret tx node h0 r0 v0 y.
     \<forall>fs. deref v0 tx = Some fs \<longrightarrow>
       objects_kept v0 (snd y) \<and> (\<exists>evs. trace (snd y) = trace v0 @ evs) \<and>
       (\<forall>n b. SubmitTransaction n b \<in> set (events_since v0 (snd y)) \<longrightarrow>
              ?Q E T secret tx node h0 r0 v0 (snd y) fs n b)"
  have "?P E T secret tx node h0 r0 v0 y"
  proof (rule submit_while.raw_induct[where P = ?P, OF _ run])
    fix f E T secret tx node h0 r0 v0 y
    assume IH: "\<And>E T secret tx node h r w y. f E T secret tx node h r w = Some y \<Longrightarrow>
                  ?P E T secret tx node h r w y"
      and step: "(if \<not> truthy h0
        then case submit_body E T secret tx node h0 r0 v0 of
             (Inl e, w1) \<Rightarrow> Some (Inl e, w1)
             | (Inr (hash1, retry1), w1) \<Rightarrow> f E T secret tx node hash1 retry1 w1
        else Some (Inr h0, v0)) = Some y"
    show "?P E T secret tx node h0 r0 v0 y"
    proof (intro allI impI)
      fix fs assume d: "deref v0 tx = Some fs"
      show "objects_kept v0 (snd y) \<and> (\<exists>evs. trace (snd y) = trace v0 @ evs) \<and>
            (\<forall>n b. SubmitTransaction n b \<in> set (events_since v0 (snd y)) \<longrightarrow>
                   ?Q E T secret tx node h0 r0 v0 (snd y) fs n b)"
      proof (cases "truthy h0")
        case True
        with step have "y = (Inr h0, v0)" by simp
        then show ?thesis by (simp add: events_since_def)
      next
        case False
        obtain xb v1 where body: "submit_body E T secret tx node h0 r0 v0 = (xb, v1)"
          by (cases "submit_body E T secret tx node h0 r0 v0")
        from submit_body_frame[OF body] obtain evs1 where
          k1: "objects_kept v0 v1" and e1: "trace v1 = trace v0 @ evs1" by blast
        have ev1: "events_since v0 v1 = evs1" using e1 by (rule events_since_append)
        have entered: "loop_reaches E T secret tx node (h0, r0, v0) (h0, r0, v0)"
          by (rule loop_reaches.entered)
        show ?thesis
        proof (cases xb)
          case (Inl e)
          with step False body have y: "y = (Inl e, v1)" by simp
          have "?Q E T secret tx node h0 r0 v0 v1 fs n b"
            if m: "SubmitTransaction n b \<in> set (events_since v0 v1)" for n b
          proof -
            from pass_submission[OF body d m] obtain s signed where
              "fst (swtcSequence_get (Transaction_fetchSequence E) (field fs ''Account'') node
                      (snd (Object_assign_new tx v0))) = Inr s"
              "deref v1 (length (store v0)) = Some (AList.update ''Sequence'' (JNum (int s)) fs)"
              "sign_fields (wallet T) (AList.update ''Sequence'' (JNum (int s)) fs) secret = Inr signed"
              "b = blob signed" "n = node"
              by blast
            with entered False body m show ?thesis by (intro exI conjI) simp_all
          qed
          then show ?thesis using y k1 e1 by auto
        next
          case (Inr p)
          obtain h1 r1 where p: "p = (h1, r1)" by (cases p)
          have body': "submit_body E T secret tx node h0 r0 v0 = (Inr (h1, r1), v1)"
            using body Inr p by simp
          from step False body' have "f E T secret tx node h1 r1 v1 = Some y" by simp
          note ih = IH[OF this, rule_format, OF objects_kept_deref_Some[OF k1 d]]
          from ih obtain evs2 where
            k2: "objects_kept v1 (snd y)" and e2: "trace (snd y) = trace v1 @ evs2"
            by blast
          have rest: "?Q E T secret tx node h1 r1 v1 (snd y) fs n b"
            if "SubmitTransaction n b \<in> set (events_since v1 (snd y))" for n b
            using ih that by blast
          have ev2: "events_since v1 (snd y) = evs2" using e2 by (rule events_since_append)
          have e: "trace (snd y) = trace v0 @ (evs1 @ evs2)" using e1 e2 by simp
          then have ev: "events_since v0 (snd y) = evs1 @ evs2" by (rule events_since_append)
          have "?Q E T secret tx node h0 r0 v0 (snd y) fs n b"
            if m: "SubmitTransaction n b \<in> set (events_since v0 (snd y))" for n b
          proof (cases "SubmitTransaction n b \<in> set evs1")
            case True
            then have m1: "SubmitTransaction n b \<in> set (events_since v0 v1)" using ev1 by simp
            from pass_submission[OF body d m1] obtain s signed where
              a: "fst (swtcSequence_get (Transaction_fetchSequence E) (field fs ''Account'') node
                      (snd (Object_assign_new tx v0))) = Inr s"
              and b: "deref v1 (length (store v0)) = Some (AList.update ''Sequence'' (JNum (int s)) fs)"
              and c: "sign_fields (wallet T) (AList.update ''Sequence'' (JNum (int s)) fs) secret = Inr signed"
                "b = blob signed" "n = node"
              by blast
            have "deref (snd y) (length (store v0)) = Some (AList.update ''Sequence'' (JNum (int s)) fs)"
              using k2 b by (rule objects_kept_deref_Some)
            with entered False body m1 a c show ?thesis by (intro exI conjI) simp_all
          next
            case False
            then have "SubmitTransaction n b \<in> set (events_since v1 (snd y))"
              using m ev ev2 by simp
            from rest[OF this] obtain h r v xb' v1' s signed where
              q: "loop_reaches E T secret tx node (h1, r1, v1) (h, r, v)" "\<not> truthy h"
                "submit_body E T secret tx node h r v = (xb', v1')"
                "SubmitTransaction n b \<in> set (events_since v v1')"
                "length (store v1) \<le> length (store v)"
                "fst (swtcSequence_get (Transaction_fetchSequence E) (field fs ''Account'') node
                      (snd (Object_assign_new tx v))) = Inr s"
                "deref (snd y) (length (store v)) = Some (AList.update ''Sequence'' (JNum (int s)) fs)"
                "sign_fields (wallet T) (AList.update ''Sequence'' (JNum (int s)) fs) secret = Inr signed"
                "b = blob signed" "n = node"
              by blast
            have "loop_reaches E T secret tx node (h0, r0, v0) (h, r, v)"
              using q(1) _ \<open>\<not> truthy h0\<close> body' by (rule reaches_first) simp
            moreover have "length (store v0) \<le> length (store v)"
              using objects_kept_length[OF k1] q(5) by simp
            ultimately show ?thesis using q(2-4,6-10) by (intro exI conjI)
          qed
          then show ?thesis using objects_kept_trans[OF k1 k2] e by blast
        qed
      qed
    qed
  qed
  then show ?thesis using d by blast
qed

lemma first_pass_submits:
  assumes run: "submit_while E T secret tx node h r v = Some (x, w')" and nt: "\<not> truthy h"
    and d: "deref v tx = Some fs"
    and f: "fetch_never_fails E" and s: "signer_never_fails (wallet T) secret"
  shows "1 \<le> submissions (events_since v w')"
proof -
  obtain signed v1 where sg: "submit_sign E T secret tx node v = (Inr signed, v1)"
    using submit_sign_succeeds[OF f s d] by blast
  obtain evs where evs: "trace v1 = trace v @ evs" using sg by (rule submit_sign_trace)
  obtain xb v2 where body: "submit_body E T secret tx node h r v = (xb, v2)"
    by (cases "submit_body E T secret tx node h r v")
  have "\<exists>evs2. trace v2 = trace v @ evs @ SubmitTransaction node (blob signed) # evs2"
    using body
  proof (cases rule: submit_body_cases)
    case (unsigned e)
    then show ?thesis using sg by simp
  next
    case (rejected signed' w1 e)
    then have "signed' = signed" "w1 = v1" using sg by simp_all
    then have "trace v2 = trace v @ evs @ SubmitTransaction node (blob signed) # []"
      using rejected(4) evs by simp
    then show ?thesis by blast
  next
    case (answered signed' w1 res)
    then have eq: "signed' = signed" "w1 = v1" using sg by simp_all
    from classify_frame(2)[OF answered(3), of node] obtain evs2 where
      "trace v2 = trace (record_event (SubmitTransaction node (blob signed')) w1) @ evs2" by blast
    then have "trace v2 = trace v @ evs @ SubmitTransaction node (blob signed) # evs2"
      using eq evs by simp
    then show ?thesis by blast
  qed
  then obtain evs2 where t2: "trace v2 = trace v @ evs @ SubmitTransaction node (blob signed) # evs2"
    by blast
  have "\<exists>evs3. trace w' = trace v2 @ evs3"
  proof (cases xb)
    case (Inl e)
    then have "submit_while E T secret tx node h r v = Some (Inl e, v2)"
      using body nt by (simp add: submit_while_throw)
    then show ?thesis using run by simp
  next
    case (Inr p)
    obtain h1 r1 where p: "p = (h1, r1)" by (cases p)
    have "submit_while E T secret tx node h r v = submit_while E T secret tx node h1 r1 v2"
      using body Inr p nt by (simp add: submit_while_next)
    then have "submit_while E T secret tx node h1 r1 v2 = Some (x, w')" using run by simp
    from loop_frame[OF this] show ?thesis by auto
  qed
  then obtain evs3 where "trace w' = trace v2 @ evs3" by blast
  then have "trace w' = trace v @ (evs @ SubmitTransaction node (blob signed) # evs2 @ evs3)"
    using t2 by simp
  then have "events_since v w' = evs @ SubmitTransaction node (blob signed) # evs2 @ evs3"
    by (rule events_since_append)
  then show ?thesis by simp
qed

lemma loop_first_resolution:
  assumes run: "submit_while E T secret tx node h r v = Some (x, w')" and nt: "\<not> truthy h"
    and d: "deref v tx = Some fs"
  shows "\<exists>evs. trace w' = trace v @ resolution_events (field fs ''Account'') node v @ evs"
proof -
  let ?res = "resolution_events (field fs ''Account'') node v"
  obtain xb v2 where body: "submit_body E T secret tx node h r v = (xb, v2)"
    by (cases "submit_body E T secret tx node h r v")
  have sgt: "trace (snd (submit_sign E T secret tx node v)) = trace v @ ?res"
    using d by (rule submit_sign_resolution)
  have "\<exists>evs2. trace v2 = trace v @ ?res @ evs2"
    using body
  proof (cases rule: submit_body_cases)
    case (unsigned e)
    then show ?thesis using sgt by simp
  next
    case (rejected signed w1 e)
    then have "trace v2 = trace v @ ?res @ [SubmitTransaction node (blob signed)]"
      using sgt by simp
    then show ?thesis by blast
  next
    case (answered signed w1 res)
    from classify_frame(2)[OF answered(3), of node] obtain evs2 where
      "trace v2 = trace (record_event (SubmitTransaction node (blob signed)) w1) @ evs2" by blast
    then have "trace v2 = trace v @ ?res @ (SubmitTransaction node (blob signed) # evs2)"
      using sgt answered(1) by simp
    then show ?thesis by blast
  qed
  then obtain evs2 where t2: "trace v2 = trace v @ ?res @ evs2" by blast
  have "\<exists>evs3. trace w' = trace v2 @ evs3"
  proof (cases xb)
    case (Inl e)
    then have "submit_while E T secret tx node h r v = Some (Inl e, v2)"
      using body nt by (simp add: submit_while_throw)
    then show ?thesis using run by simp
  next
    case (Inr p)
    obtain h1 r1 where p: "p = (h1, r1)" by (cases p)
    have "submit_while E T secret tx node h r v = submit_while E T secret tx node h1 r1 v2"
      using body Inr p nt by (simp add: submit_while_next)
    then have "submit_while E T secret tx node h1 r1 v2 = Some (x, w')" using run by simp
    from loop_frame[OF this] show ?thesis by auto
  qed
  then obtain evs3 where "trace w' = trace v2 @ evs3" by blast
  then have "trace w' = trace v @ ?res @ (evs2 @ evs3)" using t2 by simp
  then show ?thesis by blast
qed

lemma fresh_fetch:
  assumes run: "submit E T secret tx u = Some (x, u')"
    and d: "deref u tx = Some fs" and none: "accounts u (field fs ''Account'') = None"
  shows "\<exists>evs. trace u' = trace u @ MathRandom # SequenceGet (field fs ''Account'') (fst (getNode E T u)) #
                            FetchSequence (fst (getNode E T u)) (field fs ''Account'') # evs"
proof -
  let ?a = "field fs ''Account''"
  obtain n v0 where n: "getNode E T u = (n, v0)" by (cases "getNode E T u")
  have t0: "trace v0 = trace u @ [MathRandom]" using getNode_props(3)[OF n] .
  have a0: "accounts v0 ?a = None" using getNode_props(2)[OF n] none by simp
  have d0: "deref v0 tx = Some fs" using getNode_deref[OF n] d by simp
  have loop: "submit_while E T secret tx n JUndefined (retry T) v0 = Some (x, u')"
    using run by (simp add: submit_first_pass[OF n])
  have "\<not> truthy JUndefined" by simp
  from loop_first_resolution[OF loop this d0] obtain evs where
    "trace u' = trace v0 @ resolution_events ?a n v0 @ evs" by blast
  then have "trace u' = trace u @ MathRandom # SequenceGet ?a n # FetchSequence n ?a # evs"
    using t0 a0 by (simp add: resolution_events_def)
  then show ?thesis using n by auto
qed

lemma getNode_new_object: "fst (getNode E T (snd (new_object built u))) = fst (getNode E T u)"
  by (simp add: getNode_def new_object_def Let_def)

lemma facade_fresh_fetch:
  assumes inv: "invoke E X T c u = Some (x, u')"
    and b: "build X T c = Inr built"
    and none: "accounts u (field built ''Account'') = None"
  shows "\<exists>evs. events_since u u' =
           MathRandom # SequenceGet (field built ''Account'') (fst (getNode E T u)) #
           FetchSequence (fst (getNode E T u)) (field built ''Account'') # evs"
proof -
  let ?a = "field built ''Account''"
  let ?u1 = "snd (new_object built u)"
  let ?tx = "length (store u)"
  have no: "new_object built u = (?tx, ?u1)" by (simp add: new_object_def)
  have d: "deref ?u1 ?tx = Some built" using no by (rule deref_new_object)
  have t: "trace ?u1 = trace u" using no by (rule trace_new_object)
  have a: "accounts ?u1 ?a = None" using none by (simp add: new_object_def)
  obtain y w2 where run: "submit E T (signing_secret c) ?tx ?u1 = Some (y, w2)"
    and tr: "\<exists>ev. trace u' = trace w2 @ [ev]"
    using inv b by (auto simp: invoke_eq split: option.splits sum.splits)
  from fresh_fetch[OF run d a] obtain evs where
    "trace w2 = trace ?u1 @ MathRandom # SequenceGet ?a (fst (getNode E T ?u1)) #
                  FetchSequence (fst (getNode E T ?u1)) ?a # evs" by blast
  then have "trace w2 = trace u @ MathRandom # SequenceGet ?a (fst (getNode E T u)) #
                  FetchSequence (fst (getNode E T u)) ?a # evs"
    unfolding t getNode_new_object .
  moreover from tr obtain ev where "trace u' = trace w2 @ [ev]" by blast
  ultimately have "trace u' = trace u @ (MathRandom # SequenceGet ?a (fst (getNode E T u)) #
                  FetchSequence (fst (getNode E T u)) ?a # (evs @ [ev]))" by simp
  then have "events_since u u' = MathRandom # SequenceGet ?a (fst (getNode E T u)) #
                  FetchSequence (fst (getNode E T u)) ?a # (evs @ [ev])"
    by (rule events_since_append)
  then show ?thesis by blast
qed

section \<open>Accepted transactions\<close>

text \<open>
  Claim C1 does not hold of the code for a response that has \<open>engine_result\<close> equal to
  \<open>tesSUCCESS\<close> and an empty \<open>result.tx_json.hash\<close>. The loop is
  \<open>while (!hash)\<close>, so taking the empty hash does not end it: \<open>submit\<close> does not
  return that response's hash but signs and submits the transaction again. Here the
  second response, \<open>temBAD_FEE\<close>, makes the call throw, after two submission attempts;
  and at a node that answers every submission with \<open>tesSUCCESS\<close> and an empty hash the
  call never returns. (\<open>sendRawTransaction\<close>, in the same class, returns
  \<open>res.result.tx_json.hash\<close> for every \<open>tesSUCCESS\<close> response.)
\<close>

theorem success_with_empty_hash_resubmits:
  "returned (submit (scripted [response ''tesSUCCESS'' [], response ''temBAD_FEE'' ''X''])
              (Transaction_new demo_chain [''n1''] (Some (Finite 3))) ''s'' 0 demo_world) =
     Some (Inl (Error ''json'')) \<and>
   attempts demo_world
     (submit (scripted [response ''tesSUCCESS'' [], response ''temBAD_FEE'' ''X''])
        (Transaction_new demo_chain [''n1''] (Some (Finite 3))) ''s'' 0 demo_world) = Some 2 \<and>
   submit (stubborn (response ''tesSUCCESS'' [])) (Transaction_new demo_chain [''n1''] (Some (Finite 0)))
     ''s'' 0 demo_world = None"
proof -
  have "returned (submit (scripted [response ''tesSUCCESS'' [], response ''temBAD_FEE'' ''X''])
              (Transaction_new demo_chain [''n1''] (Some (Finite 3))) ''s'' 0 demo_world) =
     Some (Inl (Error ''json''))"
    by code_simp
  moreover have "attempts demo_world
     (submit (scripted [response ''tesSUCCESS'' [], response ''temBAD_FEE'' ''X''])
        (Transaction_new demo_chain [''n1''] (Some (Finite 3))) ''s'' 0 demo_world) = Some 2"
    by code_simp
  ultimately show ?thesis using stubborn_never_returns by (intro conjI)
qed

section \<open>Budget exhaustion\<close>

text \<open>
  Claim C2, amended. Let \<open>submit\<close> run on an instance constructed with \<open>retry = n\<close>
  for an integer \<open>n\<close> with \<open>0 \<le> n \<le> 2^53\<close>, on a transaction object of the store,
  with a fetch and a signer that do not fail. If the node answers the first \<open>n + 1\<close>
  submissions of this call with \<open>tefPAST_SEQ\<close> (a longer script of such responses
  does so), \<open>submit\<close> throws \<open>new Error(JSON.stringify(res))\<close> for such a response
  after exactly \<open>n + 1\<close> submission attempts: the response \<open>n + 2\<close> of the script is
  never asked for. What the node answered to submissions before this call does not
  matter.
\<close>

theorem budget_exhaustion:
  assumes "0 \<le> n" and "n \<le> 2 ^ 53"
    and "fetch_never_fails E" and "signer_never_fails L secret"
    and "deref w tx = Some fs"
    and "\<forall>t node b. submissions (trace w) \<le> submissions t \<longrightarrow>
           submissions t < submissions (trace w) + nat n + 1 \<longrightarrow>
           (\<exists>res. submitTransaction_reply E t node b = Inr res \<and>
                  res_engine_result res = JStr ''tefPAST_SEQ'')"
  shows "\<exists>res w'. submit E (Transaction_new L ns (Some (Finite (of_int n)))) secret tx w =
                     Some (Inl (new_Error (JSON_stringify E res)), w') \<and>
                   res_engine_result res = JStr ''tefPAST_SEQ'' \<and>
                   attempts w (submit E (Transaction_new L ns (Some (Finite (of_int n)))) secret tx w) =
                     Some (nat n + 1)"
proof -
  let ?T = "Transaction_new L ns (Some (Finite (of_int n)))"
  obtain node w0 where n: "getNode E ?T w = (node, w0)" by (cases "getNode E ?T w")
  have t0: "trace w0 = trace w @ [MathRandom]" using getNode_props(3)[OF n] .
  have d: "deref w0 tx = Some fs" using getNode_deref[OF n] assms(5) by simp
  have s: "signer_never_fails (wallet ?T) secret" using assms(4) by simp
  have c: "\<And>t n' b. submissions (trace w) \<le> submissions t \<Longrightarrow>
             submissions t < submissions (trace w) + nat n + 1 \<Longrightarrow>
             \<exists>res. submitTransaction_reply E t n' b = Inr res \<and>
               (res_engine_result res = JStr ''terPRE_SEQ'' \<or> res_engine_result res = JStr ''tefPAST_SEQ'') \<and>
               res_engine_result res = JStr ''tefPAST_SEQ''"
    using assms(6) by blast
  have k0: "submissions (trace w) \<le> submissions (trace w0)" using t0 by simp
  have k: "submissions (trace w0) + nat n + 1 \<le> submissions (trace w) + nat n + 1"
    using t0 by simp
  have "\<not> truthy JUndefined" by simp
  from exhaustion_bounded[of E ?T secret "submissions (trace w)" "submissions (trace w) + nat n + 1"
      "\<lambda>res. res_engine_result res = JStr ''tefPAST_SEQ''" JUndefined n w0 tx fs node,
      OF assms(3) s c this assms(1,2) d k0 k]
  obtain res w' evs where run: "submit_while E ?T secret tx node JUndefined (Finite (of_int n)) w0 =
                          Some (Inl (new_Error (JSON_stringify E res)), w')"
    and past: "res_engine_result res = JStr ''tefPAST_SEQ''"
    and evs: "trace w' = trace w0 @ evs" "submissions evs = nat n + 1"
    by blast
  have sub: "submit E ?T secret tx w = Some (Inl (new_Error (JSON_stringify E res)), w')"
    using run by (simp add: submit_first_pass[OF n])
  have "trace w' = trace w @ (MathRandom # evs)" using evs(1) t0 by simp
  then have "attempts w (Some (Inl (new_Error (JSON_stringify E res)), w')) = Some (submissions (MathRandom # evs))"
    by (rule attempts_Some)
  then have att: "attempts w (submit E ?T secret tx w) = Some (nat n + 1)"
    using sub evs(2) by simp
  from sub past att show ?thesis by (intro exI conjI)
qed

text \<open>
  Claim C2, amended, at \<open>n = 1\<close> and a script of three \<open>tefPAST_SEQ\<close> responses: two
  attempts.
\<close>

theorem budget_exhaustion_witness:
  "returned (submit (scripted [response ''tefPAST_SEQ'' ''A'', response ''tefPAST_SEQ'' ''B'',
                              response ''tefPAST_SEQ'' ''C''])
              (Transaction_new demo_chain [''n1''] (Some (Finite 1))) ''s'' 0 demo_world) =
     Some (Inl (Error ''json'')) \<and>
   attempts demo_world
     (submit (scripted [response ''tefPAST_SEQ'' ''A'', response ''tefPAST_SEQ'' ''B'',
                        response ''tefPAST_SEQ'' ''C''])
        (Transaction_new demo_chain [''n1''] (Some (Finite 1))) ''s'' 0 demo_world) = Some 2"
proof -
  let ?rs = "[response ''tefPAST_SEQ'' ''A'', response ''tefPAST_SEQ'' ''B'', response ''tefPAST_SEQ'' ''C'']"
  let ?T = "Transaction_new demo_chain [''n1''] (Some (Finite 1))"
  have all: "\<forall>res \<in> set ?rs. res_engine_result res = JStr ''tefPAST_SEQ''" by simp
  have h: "\<forall>t node b. submissions (trace demo_world) \<le> submissions t \<longrightarrow>
           submissions t < submissions (trace demo_world) + nat 1 + 1 \<longrightarrow>
           (\<exists>res. submitTransaction_reply (scripted ?rs) t node b = Inr res \<and>
                  res_engine_result res = JStr ''tefPAST_SEQ'')"
  proof (intro allI impI)
    fix t :: "event list" and node :: "string option" and b :: string
    assume "submissions t < submissions (trace demo_world) + nat 1 + 1"
    then have lt: "submissions t < length ?rs" by (simp add: demo_world_def)
    then have "?rs ! submissions t \<in> set ?rs" by (rule nth_mem)
    with all have "res_engine_result (?rs ! submissions t) = JStr ''tefPAST_SEQ''" by blast
    with scripted_in_script[OF lt]
    show "\<exists>res. submitTransaction_reply (scripted ?rs) t node b = Inr res \<and>
                res_engine_result res = JStr ''tefPAST_SEQ''" by blast
  qed
  have one: "Finite (of_int 1) = Finite 1" by simp
  from budget_exhaustion[of 1 "scripted ?rs" demo_chain "''s''" demo_world 0 _ "[''n1'']",
      OF _ _ scripted_fetch_never_fails demo_chain_never_fails demo_world_deref h, unfolded one]
  obtain res w' where run: "submit (scripted ?rs) ?T ''s'' 0 demo_world =
                     Some (Inl (new_Error (JSON_stringify (scripted ?rs) res)), w')"
    and past: "res_engine_result res = JStr ''tefPAST_SEQ''"
    and att: "attempts demo_world (submit (scripted ?rs) ?T ''s'' 0 demo_world) = Some (nat 1 + 1)"
    by auto
  have "res \<noteq> JUndefined" using past by (auto simp: res_engine_result_def opt_prop_def)
  then have js: "JSON_stringify (scripted ?rs) res = Some ''json''"
    by (cases res) (simp_all add: scripted_def)
  have "returned (submit (scripted ?rs) ?T ''s'' 0 demo_world) = Some (Inl (Error ''json''))"
    unfolding run by (simp add: returned_def js new_Error_def)
  moreover have "attempts demo_world (submit (scripted ?rs) ?T ''s'' 0 demo_world) = Some 2"
    using att by simp
  ultimately show ?thesis by (rule conjI)
qed

text \<open>
  Claim C2 as stated fails for large budgets. \<open>retry\<close> is a double, and \<open>2^54\<close> is
  one; \<open>retry - 1\<close> there is \<open>2^54\<close> again, so the counter never drops below zero: at
  a node that answers every submission with \<open>tefPAST_SEQ\<close> the call with
  \<open>retry = 2^54\<close> raises no failure, after \<open>2^54 + 1\<close> attempts or any other
  number. It does not return.
\<close>

theorem budget_exhaustion_counterexample:
  "binary64 18014398509481984 = Finite 18014398509481984 \<and>
   submit (stubborn (response ''tefPAST_SEQ'' ''X''))
     (Transaction_new demo_chain [''n1''] (Some (Finite 18014398509481984))) ''s'' 0 demo_world = None"
proof -
  have "\<not> less_zero (Finite 18014398509481984)" by simp
  from stubborn_stalls[OF stalled_counters(2) this, of "''tefPAST_SEQ''"] stalled_counters(4)
  show ?thesis by simp
qed

section \<open>A budget of zero\<close>

text \<open>
  Claim C3, amended. On an instance constructed with \<open>retry\<close> given as 0 (or left to
  its default, 0), when the first submission attempt receives \<open>terPRE_SEQ\<close> or
  \<open>tefPAST_SEQ\<close>, \<open>submit\<close> makes no second attempt: the counter drops to -1, the
  cached sequence of \<open>tx.Account\<close> is reset, and the error for that response is thrown
  after exactly one submission attempt.
\<close>

theorem zero_budget_single_attempt:
  assumes "r0 = None \<or> r0 = Some (Finite 0)"
    and "getNode E (Transaction_new L ns r0) w = (node, w0)"
    and "submit_sign E (Transaction_new L ns r0) secret tx node w0 = (Inr signed, w1)"
    and "submitTransaction_reply E (trace w1) node (blob signed) = Inr res"
    and "res_engine_result res = JStr ''terPRE_SEQ'' \<or> res_engine_result res = JStr ''tefPAST_SEQ''"
    and "deref w tx = Some fs"
  shows "submit E (Transaction_new L ns r0) secret tx w =
           Some (Inl (new_Error (JSON_stringify E res)),
                 swtcSequence_reset (field fs ''Account'')
                   (record_event (SubmitTransaction node (blob signed)) w1)) \<and>
         attempts w (submit E (Transaction_new L ns r0) secret tx w) = Some 1"
proof -
  let ?T = "Transaction_new L ns r0"
  let ?a = "field fs ''Account''"
  let ?w2 = "swtcSequence_reset ?a (record_event (SubmitTransaction node (blob signed)) w1)"
  have r: "retry ?T = Finite 0" using assms(1) by auto
  have d: "deref w0 tx = Some fs" using getNode_deref[OF assms(2)] assms(6) by simp
  note pass = conflict_pass[OF assms(3,4,5) d]
  have body: "submit_body E ?T secret tx node JUndefined (retry ?T) w0 =
                (Inl (new_Error (JSON_stringify E res)), ?w2)"
    using pass(1)[of JUndefined "retry ?T"] r by (simp add: minus_one_zero)
  have run: "submit E ?T secret tx w = Some (Inl (new_Error (JSON_stringify E res)), ?w2)"
    unfolding submit_first_pass[OF assms(2)] using body by (simp add: submit_while_throw)
  have "trace ?w2 = trace w @ (MathRandom # resolution_events ?a node w0 @
                                 [SubmitTransaction node (blob signed), SequenceReset ?a])"
    using pass(2) getNode_props(3)[OF assms(2)] by simp
  then have "attempts w (Some (Inl (new_Error (JSON_stringify E res)), ?w2)) =
               Some (submissions (MathRandom # resolution_events ?a node w0 @
                                 [SubmitTransaction node (blob signed), SequenceReset ?a]))"
    by (rule attempts_Some)
  then have "attempts w (submit E ?T secret tx w) = Some 1" unfolding run by simp
  with run show ?thesis by (rule conjI)
qed

text \<open>Claim C3, amended, at the default budget and a first response \<open>tefPAST_SEQ\<close>.\<close>

theorem zero_budget_single_attempt_witness:
  "returned (submit (scripted [response ''tefPAST_SEQ'' ''X'', response ''tesSUCCESS'' ''ABCD''])
              (Transaction_new demo_chain [''n1''] None) ''s'' 0 demo_world) =
     Some (Inl (Error ''json'')) \<and>
   attempts demo_world
     (submit (scripted [response ''tefPAST_SEQ'' ''X'', response ''tesSUCCESS'' ''ABCD''])
        (Transaction_new demo_chain [''n1''] None) ''s'' 0 demo_world) = Some 1"
proof -
  let ?E = "scripted [response ''tefPAST_SEQ'' ''X'', response ''tesSUCCESS'' ''ABCD'']"
  let ?T = "Transaction_new demo_chain [''n1''] None"
  obtain node w0 where n: "getNode ?E ?T demo_world = (node, w0)"
    by (cases "getNode ?E ?T demo_world")
  have d: "deref w0 0 = Some [(''Account'', JStr ''jA''), (''Fee'', JNum 10)]"
    using getNode_deref[OF n] demo_world_deref by simp
  have sf: "signer_never_fails (wallet ?T) ''s''" by (simp add: demo_chain_never_fails)
  obtain signed w1 where s: "submit_sign ?E ?T ''s'' 0 node w0 = (Inr signed, w1)"
    using submit_sign_succeeds[OF scripted_fetch_never_fails sf d] by blast
  obtain evs where evs: "trace w1 = trace w0 @ evs" "submissions evs = 0"
    using s by (rule submit_sign_trace)
  have t: "submissions (trace w1) = 0"
    using evs getNode_props(3)[OF n] by (simp add: demo_world_def)
  have r: "submitTransaction_reply ?E (trace w1) node (blob signed) = Inr (response ''tefPAST_SEQ'' ''X'')"
    using t by (simp add: scripted_def)
  have c: "res_engine_result (response ''tefPAST_SEQ'' ''X'') = JStr ''terPRE_SEQ'' \<or>
           res_engine_result (response ''tefPAST_SEQ'' ''X'') = JStr ''tefPAST_SEQ''" by simp
  have z: "(None :: number option) = None \<or> (None :: number option) = Some (Finite 0)" by simp
  note th = zero_budget_single_attempt[OF z n s r c demo_world_deref]
  have "returned (submit ?E ?T ''s'' 0 demo_world) = Some (Inl (Error ''json''))"
    unfolding th[THEN conjunct1] by (simp add: returned_def new_Error_def)
  then show ?thesis using th[THEN conjunct2] by (rule conjI)
qed

text \<open>
  Claim C3 as stated fails: with \<open>retry = 0\<close> and the script
  \<open>[terPRE_SEQ, tesSUCCESS]\<close> the call makes one submission attempt, not two; the
  second response is never asked for.
\<close>

theorem zero_budget_retry_counterexample:
  "attempts demo_world
     (submit (scripted [response ''terPRE_SEQ'' ''X'', response ''tesSUCCESS'' ''ABCD''])
        (Transaction_new demo_chain [''n1''] (Some (Finite 0))) ''s'' 0 demo_world) = Some 1"
  by code_simp

section \<open>Fatal engine results\<close>

text \<open>
  Claim C4. When the first submission attempt of \<open>submit\<close> (the node chosen, the
  transaction copied, stamped and signed, the blob sent) receives a response whose
  \<open>engine_result\<close> is none of \<open>tesSUCCESS\<close>, \<open>terPRE_SEQ\<close>, \<open>tefPAST_SEQ\<close>,
  \<open>submit\<close> throws at once, whatever the retry budget of the instance is: the error is
  \<open>new Error(JSON.stringify(res))\<close> for that response, and exactly one submission
  attempt was made.
\<close>

theorem fatal_short_circuit:
  assumes "getNode E T w = (node, w0)"
    and "submit_sign E T secret tx node w0 = (Inr signed, w1)"
    and "submitTransaction_reply E (trace w1) node (blob signed) = Inr res"
    and "res_engine_result res \<noteq> JStr ''tesSUCCESS''"
    and "res_engine_result res \<noteq> JStr ''terPRE_SEQ''"
    and "res_engine_result res \<noteq> JStr ''tefPAST_SEQ''"
  shows "submit E T secret tx w =
           Some (Inl (new_Error (JSON_stringify E res)),
                 record_event (SubmitTransaction node (blob signed)) w1) \<and>
         attempts w (submit E T secret tx w) = Some 1"
proof -
  let ?w2 = "record_event (SubmitTransaction node (blob signed)) w1"
  have body: "submit_body E T secret tx node JUndefined (retry T) w0 =
                (Inl (new_Error (JSON_stringify E res)), ?w2)"
    unfolding submit_body_answered[OF assms(2,3)] using assms(4-6) by (rule classify_fatal)
  have run: "submit E T secret tx w = Some (Inl (new_Error (JSON_stringify E res)), ?w2)"
    unfolding submit_first_pass[OF assms(1)] using body by (simp add: submit_while_throw)
  obtain evs where evs: "trace w1 = trace w0 @ evs" "submissions evs = 0"
    using assms(2) by (rule submit_sign_trace)
  have "trace ?w2 = trace w @ (MathRandom # evs @ [SubmitTransaction node (blob signed)])"
    using evs(1) getNode_props(3)[OF assms(1)] by simp
  then have "attempts w (Some (Inl (new_Error (JSON_stringify E res)), ?w2)) =
               Some (submissions (MathRandom # evs @ [SubmitTransaction node (blob signed)]))"
    by (rule attempts_Some)
  then show ?thesis using run evs(2) by simp
qed

text \<open>Claim C4 at a node answering \<open>temBAD_FEE\<close>, with a budget of 3.\<close>

theorem fatal_short_circuit_witness:
  "returned (submit (scripted [response ''temBAD_FEE'' ''AB'']) (Transaction_new demo_chain [''n1''] (Some (Finite 3)))
              ''s'' 0 demo_world) = Some (Inl (Error ''json'')) \<and>
   attempts demo_world (submit (scripted [response ''temBAD_FEE'' ''AB''])
              (Transaction_new demo_chain [''n1''] (Some (Finite 3))) ''s'' 0 demo_world) = Some 1"
proof -
  let ?E = "scripted [response ''temBAD_FEE'' ''AB'']"
  let ?T = "Transaction_new demo_chain [''n1''] (Some (Finite 3))"
  obtain node w0 where n: "getNode ?E ?T demo_world = (node, w0)"
    by (cases "getNode ?E ?T demo_world")
  have d: "deref w0 0 = Some [(''Account'', JStr ''jA''), (''Fee'', JNum 10)]"
    using getNode_deref[OF n] demo_world_deref by simp
  have sf: "signer_never_fails (wallet ?T) ''s''"
    by (simp add: Transaction_new_def demo_chain_never_fails)
  obtain signed w1 where s: "submit_sign ?E ?T ''s'' 0 node w0 = (Inr signed, w1)"
    using submit_sign_succeeds[OF scripted_fetch_never_fails sf d] by blast
  obtain evs where evs: "trace w1 = trace w0 @ evs" "submissions evs = 0"
    using s by (rule submit_sign_trace)
  have t: "submissions (trace w1) = 0"
    using evs getNode_props(3)[OF n] by (simp add: demo_world_def)
  have r: "submitTransaction_reply ?E (trace w1) node (blob signed) = Inr (response ''temBAD_FEE'' ''AB'')"
    using t by (simp add: scripted_def)
  have e: "res_engine_result (response ''temBAD_FEE'' ''AB'') = JStr ''temBAD_FEE''"
    by (simp add: res_engine_result_def response_def opt_prop_def)
  have js: "JSON_stringify ?E (response ''temBAD_FEE'' ''AB'') = Some ''json''"
    by (simp add: scripted_def response_def)
  have e1: "res_engine_result (response ''temBAD_FEE'' ''AB'') \<noteq> JStr ''tesSUCCESS''"
    and e2: "res_engine_result (response ''temBAD_FEE'' ''AB'') \<noteq> JStr ''terPRE_SEQ''"
    and e3: "res_engine_result (response ''temBAD_FEE'' ''AB'') \<noteq> JStr ''tefPAST_SEQ''"
    by (simp_all add: e)
  note th = fatal_short_circuit[OF n s r e1 e2 e3]
  have a: "submit ?E ?T ''s'' 0 demo_world =
             Some (Inl (new_Error (JSON_stringify ?E (response ''temBAD_FEE'' ''AB''))),
                   record_event (SubmitTransaction node (blob signed)) w1)"
    and b: "attempts demo_world (submit ?E ?T ''s'' 0 demo_world) = Some 1"
    using th by blast+
  have "returned (submit ?E ?T ''s'' 0 demo_world) = Some (Inl (Error ''json''))"
    unfolding a by (simp add: returned_def js new_Error_def)
  then show ?thesis using b by (rule conjI)
qed

section \<open>Sequence conflicts and the cache\<close>



section \<open>Termination and the bound on attempts\<close>

text \<open>
  Claim C6, amended. For every call of \<open>submit\<close> on an instance whose retry budget is
  an integer \<open>n\<close> with \<open>0 \<le> n \<le> 2^53\<close>, in every environment (whatever the fetch,
  the signer and the node do) in which every \<open>tesSUCCESS\<close> response carries a truthy
  \<open>tx_json.hash\<close>, \<open>submit\<close> returns: with a hash or with an error thrown, after
  at most \<open>n + 1\<close> submission attempts.
\<close>

theorem submit_terminates:
  assumes "retry T = Finite (of_int n)" and "0 \<le> n" and "n \<le> 2 ^ 53"
    and "\<forall>t node b res h. submitTransaction_reply E t node b = Inr res \<longrightarrow>
           res_engine_result res = JStr ''tesSUCCESS'' \<longrightarrow>
           res_tx_json_hash res = Inr h \<longrightarrow> truthy h"
  shows "\<exists>x w' k. submit E T secret tx w = Some (x, w') \<and>
                   attempts w (submit E T secret tx w) = Some k \<and> k \<le> nat n + 1"
proof -
  obtain node w0 where n: "getNode E T w = (node, w0)" by (cases "getNode E T w")
  have "\<not> truthy JUndefined" by simp
  from loop_terminates[of E JUndefined n T secret tx node w0, OF _ this assms(2,3)] assms(4)
  obtain x w' evs where run: "submit_while E T secret tx node JUndefined (Finite (of_int n)) w0 = Some (x, w')"
    and evs: "trace w' = trace w0 @ evs" "submissions evs \<le> nat n + 1"
    by blast
  have "trace w' = trace w @ (MathRandom # evs)" using evs(1) getNode_props(3)[OF n] by simp
  then have "attempts w (Some (x, w')) = Some (submissions (MathRandom # evs))" by (rule attempts_Some)
  then have "submit E T secret tx w = Some (x, w') \<and>
             attempts w (submit E T secret tx w) = Some (submissions evs) \<and>
             submissions evs \<le> nat n + 1"
    using run evs(2) by (simp add: submit_first_pass[OF n] assms(1))
  then show ?thesis by blast
qed

text \<open>Claim C6, amended, at the script \<open>[terPRE_SEQ, tesSUCCESS]\<close> with a budget of 1.\<close>

theorem submit_terminates_witness:
  "\<exists>x w' k. submit (scripted [response ''terPRE_SEQ'' ''X'', response ''tesSUCCESS'' ''ABCD''])
               (Transaction_new demo_chain [''n1''] (Some (Finite 1))) ''s'' 0 demo_world = Some (x, w') \<and>
             attempts demo_world (submit (scripted [response ''terPRE_SEQ'' ''X'', response ''tesSUCCESS'' ''ABCD''])
               (Transaction_new demo_chain [''n1''] (Some (Finite 1))) ''s'' 0 demo_world) = Some k \<and>
             k \<le> 2"
proof -
  let ?rs = "[response ''terPRE_SEQ'' ''X'', response ''tesSUCCESS'' ''ABCD'']"
  have "\<forall>t node b res h. submitTransaction_reply (scripted ?rs) t node b = Inr res \<longrightarrow>
             res_engine_result res = JStr ''tesSUCCESS'' \<longrightarrow>
             res_tx_json_hash res = Inr h \<longrightarrow> truthy h"
  proof (intro allI impI)
    fix t node b res h
    assume r: "submitTransaction_reply (scripted ?rs) t node b = Inr res"
      and s: "res_engine_result res = JStr ''tesSUCCESS''" and h: "res_tx_json_hash res = Inr h"
    from r have "res \<in> set ?rs" by (rule scripted_reply)
    then show "truthy h" using s h
      by (auto simp: response_def res_engine_result_def res_tx_json_hash_def opt_prop_def get_prop_def)
  qed
  from submit_terminates[where T = "Transaction_new demo_chain [''n1''] (Some (Finite 1))" and n = 1
      and secret = "''s''" and tx = 0 and w = demo_world, OF demo_budgets(1,3,4) this]
  show ?thesis by (auto simp: numeral_2_eq_2)
qed

text \<open>
  Claim C6 as stated fails for large budgets. \<open>retry\<close> is a double; at the integer
  \<open>2^53 + 4\<close>, which is one, \<open>retry - 1\<close> is halfway between two doubles and rounds
  back to \<open>2^53 + 4\<close>. The counter is the loop's only bound, so at a node that
  answers every submission with \<open>terPRE_SEQ\<close> the call with that budget goes on
  submitting and never returns, with a hash or with an error.
\<close>

theorem submit_terminates_counterexample:
  "binary64 9007199254740996 = Finite 9007199254740996 \<and>
   submit (stubborn (response ''terPRE_SEQ'' ''X''))
     (Transaction_new demo_chain [''n1''] (Some (Finite 9007199254740996))) ''s'' 0 demo_world = None"
proof -
  have "\<not> less_zero (Finite 9007199254740996)" by simp
  from stubborn_stalls[OF stalled_counters(1) this, of "''terPRE_SEQ''"] stalled_counters(3)
  show ?thesis by simp
qed

section \<open>The shape of the facade operations\<close>

text \<open>
  Claim C7. Every public operation (the fourteen constructors of \<open>facade_call\<close>, which
  \<open>invoke\<close> maps to \<open>createOrder\<close>, \<open>cancelOrder\<close>, \<open>transfer\<close>, \<open>setBrokerage\<close>,
  \<open>addBlackList\<close>, \<open>removeBlackList\<close>, \<open>setManageIssuer\<close>, \<open>issueSet\<close>,
  \<open>setSignerList\<close>, \<open>setAccount\<close>, \<open>transfer721\<close>, \<open>delete721\<close>, \<open>setTokenIssue\<close>,
  \<open>publish721\<close>) has the same shape: once its transaction is built and \<open>submit\<close> has
  returned or thrown, the operation gives back exactly what \<open>submit\<close> gave, the hash or
  the same error, after \<open>swtcSequence.rise\<close> on the acting account when it was a hash and
  after \<open>swtcSequence.reset\<close> on the acting account when it was an error. The acting
  account is the first argument; for \<open>setBrokerage\<close> that is the platform account.
\<close>

theorem facade_rise_or_reset:
  assumes "build X T c = Inr built"
    and "new_object built w = (tx, w1)"
    and "submit E T (signing_secret c) tx w1 = Some (x, w2)"
  shows "invoke E X T c w =
           Some (x, case x of Inr h \<Rightarrow> swtcSequence_rise (JStr (acting_account c)) w2
                          | Inl e \<Rightarrow> swtcSequence_reset (JStr (acting_account c)) w2) \<and>
         acting_account (SetBrokerage platformAccount platformSecret feeAccount rateNum rateDen token issuer) =
           platformAccount"
proof -
  have "tx = length (store w)" "w1 = snd (new_object built w)"
    using assms(2) by (auto simp: new_object_def)
  with assms(1,3) show ?thesis
    by (cases x) (simp_all add: invoke_eq)
qed

text \<open>
  Claim C7 at \<open>setBrokerage\<close> for platform account \<open>jP\<close> and a node answering
  \<open>temBAD_FEE\<close>.
\<close>

theorem facade_rise_or_reset_witness:
  "\<exists>x w2. invoke (scripted [response ''temBAD_FEE'' ''X'']) demo_builders
             (Transaction_new demo_chain [''n1''] (Some (Finite 1)))
             (SetBrokerage ''jP'' ''ps'' ''jFee'' (JNum 1) (JNum 1000) ''JJCC'' None) demo_world =
           Some (x, case x of Inr h \<Rightarrow> swtcSequence_rise (JStr ''jP'') w2
                            | Inl e \<Rightarrow> swtcSequence_reset (JStr ''jP'') w2)"
proof -
  let ?E = "scripted [response ''temBAD_FEE'' ''X'']"
  let ?T = "Transaction_new demo_chain [''n1''] (Some (Finite 1))"
  let ?c = "SetBrokerage ''jP'' ''ps'' ''jFee'' (JNum 1) (JNum 1000) ''JJCC'' None"
  obtain tx w1 where no: "new_object (demo_tx ''Brokerage'' ''jP'') demo_world = (tx, w1)"
    by (cases "new_object (demo_tx ''Brokerage'' ''jP'') demo_world")
  have "\<exists>x w'. submit ?E ?T (signing_secret ?c) tx w1 = Some (x, w')"
    by (rule scripted_returns[where k = 1]) auto
  then obtain x w2 where run: "submit ?E ?T (signing_secret ?c) tx w1 = Some (x, w2)" by blast
  have aa: "acting_account ?c = ''jP''" by simp
  from facade_rise_or_reset[OF demo_build_brokerage no run, THEN conjunct1, unfolded aa]
  show ?thesis by blast
qed

section \<open>The caller's transaction\<close>



section \<open>The node of a call\<close>

text \<open>
  Claim C9. The events of a call of \<open>submit\<close> that returned or threw begin with the one
  call of \<open>Math.random\<close> that chooses the node; no other follows, and every
  \<open>swtcSequence.get\<close>, every sequence fetch and every submission after it names the node
  chosen then. The loop starts with that node and receives no other: each pass, of
  a call that returns or not, adds only events that name the node it is given.
\<close>

theorem node_chosen_once:
  assumes "submit E T secret tx w = Some (x, w')"
  shows "(\<exists>evs. events_since w w' = MathRandom # evs \<and>
                list_all (uses_node (fst (getNode E T w))) evs) \<and>
         submit E T secret tx w =
           submit_while E T secret tx (fst (getNode E T w)) JUndefined (retry T) (snd (getNode E T w)) \<and>
         (\<forall>node h r v xb v1. submit_body E T secret tx node h r v = (xb, v1) \<longrightarrow>
            list_all (uses_node node) (events_since v v1))"
proof (intro conjI allI impI)
  from submit_frame(2)[OF assms] obtain evs where
    "trace w' = trace w @ MathRandom # evs" "list_all (uses_node (fst (getNode E T w))) evs"
    by blast
  then have "events_since w w' = MathRandom # evs \<and> list_all (uses_node (fst (getNode E T w))) evs"
    by simp
  then show "\<exists>evs. events_since w w' = MathRandom # evs \<and>
                list_all (uses_node (fst (getNode E T w))) evs" by blast
next
  show "submit E T secret tx w =
           submit_while E T secret tx (fst (getNode E T w)) JUndefined (retry T) (snd (getNode E T w))"
    by (rule submit_first_pass) simp
next
  fix node h r v xb v1
  assume "submit_body E T secret tx node h r v = (xb, v1)"
  from submit_body_frame(2)[OF this] obtain evs where
    "trace v1 = trace v @ evs" "list_all (uses_node node) evs" by blast
  then show "list_all (uses_node node) (events_since v v1)" by simp
qed

text \<open>Claim C9 at the script \<open>[terPRE_SEQ, tesSUCCESS]\<close> and two nodes: all on \<open>n2\<close>.\<close>

theorem node_chosen_once_witness:
  "\<exists>evs. events_since demo_world
            (snd (the (submit (scripted [response ''terPRE_SEQ'' ''X'', response ''tesSUCCESS'' ''ABCD''])
                         (Transaction_new demo_chain [''n1'', ''n2''] (Some (Finite 1))) ''s'' 0 demo_world))) =
            MathRandom # evs \<and>
          list_all (uses_node (Some ''n2'')) evs"
proof -
  let ?E = "scripted [response ''terPRE_SEQ'' ''X'', response ''tesSUCCESS'' ''ABCD'']"
  let ?T = "Transaction_new demo_chain [''n1'', ''n2''] (Some (Finite 1))"
  have "\<exists>x w'. submit ?E ?T ''s'' 0 demo_world = Some (x, w')"
    by (rule scripted_returns[where k = 1]) auto
  then obtain x w' where run: "submit ?E ?T ''s'' 0 demo_world = Some (x, w')" by blast
  have node: "fst (getNode ?E ?T demo_world) = Some ''n2''"
    by (simp add: getNode_def scripted_def Let_def)
  from node_chosen_once[OF run, THEN conjunct1] show ?thesis
    unfolding node run by simp
qed

section \<open>Responses without an engine result\<close>

text \<open>
  Claim C10. In any pass of the loop of \<open>submit\<close>, when \<open>submitTransaction\<close> resolves
  to a value that is undefined or null, or whose \<open>result\<close> is missing or null, or
  whose \<open>result\<close> has no \<open>engine_result\<close>, no TypeError arises from the missing
  fields: \<open>res?.result?.engine_result\<close> is undefined, the classification throws
  \<open>new Error(JSON.stringify(res))\<close> for that value and leaves the world as it finds it
  (no reset, and no new value of the counter, since it throws), and so the loop throws
  that error at once, in the world right after the submission, with the sequence cache
  as the signing of that pass left it.
\<close>

theorem missing_engine_result_is_fatal:
  assumes "\<not> truthy h"
    and "submit_sign E T secret tx node w = (Inr signed, w1)"
    and "submitTransaction_reply E (trace w1) node (blob signed) = Inr res"
    and "nullish res \<or> nullish (own_prop res ''result'') \<or>
         own_prop (own_prop res ''result'') ''engine_result'' = JUndefined"
  shows "res_engine_result res = JUndefined \<and>
         submit_classify E tx res h r (record_event (SubmitTransaction node (blob signed)) w1) =
           (Inl (new_Error (JSON_stringify E res)),
            record_event (SubmitTransaction node (blob signed)) w1) \<and>
         submit_while E T secret tx node h r w =
           Some (Inl (new_Error (JSON_stringify E res)),
                 record_event (SubmitTransaction node (blob signed)) w1) \<and>
         accounts (record_event (SubmitTransaction node (blob signed)) w1) = accounts w1"
proof -
  let ?w2 = "record_event (SubmitTransaction node (blob signed)) w1"
  have u: "res_engine_result res = JUndefined"
    using assms(4) by (auto simp: res_engine_result_def opt_prop_def)
  have cl: "submit_classify E tx res h r ?w2 = (Inl (new_Error (JSON_stringify E res)), ?w2)"
    using u by (simp add: classify_fatal)
  have "submit_body E T secret tx node h r w = (Inl (new_Error (JSON_stringify E res)), ?w2)"
    unfolding submit_body_answered[OF assms(2,3)] using cl .
  then have "submit_while E T secret tx node h r w = Some (Inl (new_Error (JSON_stringify E res)), ?w2)"
    using assms(1) by (simp add: submit_while_throw)
  moreover have "accounts ?w2 = accounts w1" by simp
  ultimately show ?thesis using u cl by (intro conjI)
qed

text \<open>Claim C10 at a node answering \<open>null\<close>.\<close>

theorem missing_engine_result_is_fatal_witness:
  "returned (submit_while (scripted [JNull]) (Transaction_new demo_chain [''n1''] (Some (Finite 3)))
              ''s'' 0 (Some ''n1'') JUndefined (Finite 3) demo_world) = Some (Inl (Error ''json''))"
proof -
  let ?E = "scripted [JNull]"
  let ?T = "Transaction_new demo_chain [''n1''] (Some (Finite 3))"
  have sf: "signer_never_fails (wallet ?T) ''s''"
    by (simp add: Transaction_new_def demo_chain_never_fails)
  obtain signed w1 where s: "submit_sign ?E ?T ''s'' 0 (Some ''n1'') demo_world = (Inr signed, w1)"
    using submit_sign_succeeds[OF scripted_fetch_never_fails sf demo_world_deref] by blast
  obtain evs where evs: "trace w1 = trace demo_world @ evs" "submissions evs = 0"
    using s by (rule submit_sign_trace)
  have t: "submissions (trace w1) = 0"
    using evs by (simp add: demo_world_def)
  have r: "submitTransaction_reply ?E (trace w1) (Some ''n1'') (blob signed) = Inr JNull"
    using t by (simp add: scripted_def)
  have "\<not> truthy JUndefined" by simp
  have js: "JSON_stringify ?E JNull = Some ''json''"
    by (simp add: scripted_def)
  have "nullish JNull \<or> nullish (own_prop JNull ''result'') \<or>
        own_prop (own_prop JNull ''result'') ''engine_result'' = JUndefined" by simp
  note th = missing_engine_result_is_fatal[OF \<open>\<not> truthy JUndefined\<close> s r this, of "Finite 3"]
  show ?thesis unfolding th[THEN conjunct2, THEN conjunct2, THEN conjunct1]
    by (simp add: returned_def js new_Error_def)
qed

end
